theory Spec2Isabelle
  imports Main "HOL-Library.Word" "HOL-Library.AList"
begin

unbundle bit_operations_syntax

section \<open>Text\<close>

text \<open>
  A Python \<open>str\<close> is a sequence of Unicode code points, so a string of the generator is
  a list of code points (natural numbers below \<open>0x110000\<close>); \<open>lit\<close> reads an ASCII
  literal. A byte string (\<open>bytes\<close>) is a list of 8-bit words.
\<close>

type_synonym ustr = "nat list"
type_synonym bytes = "8 word list"
type_synonym u32 = "32 word"

definition lit :: "string \<Rightarrow> ustr" where
  "lit s = map of_char s"

subsection \<open>The part of the Unicode tables that lies beyond ASCII\<close>

text \<open>
  \<open>str.lower\<close> and \<open>str.title\<close> consult the Unicode character database of the
  interpreter, which is no part of the repository. Their behaviour on the ASCII code
  points is written out below; for the other code points the three tables the two
  methods read are parameters of the model:
  \<^item> \<open>lower_full s i\<close>: the lower-case expansion of the code point at index \<open>i\<close> of
    \<open>s\<close> (it may be several code points, and for the capital sigma it depends on the
    neighbours, hence the string and the index);
  \<^item> \<open>title_full c\<close>: the title-case expansion of the code point \<open>c\<close>;
  \<^item> \<open>cased c\<close>: whether \<open>c\<close> is a cased code point.
\<close>

record ucd =
  lower_full :: "ustr \<Rightarrow> nat \<Rightarrow> ustr"
  title_full :: "nat \<Rightarrow> ustr"
  cased :: "nat \<Rightarrow> bool"

definition is_ascii_upper :: "nat \<Rightarrow> bool" where
  "is_ascii_upper c \<longleftrightarrow> 65 \<le> c \<and> c \<le> 90"

definition is_ascii_lower :: "nat \<Rightarrow> bool" where
  "is_ascii_lower c \<longleftrightarrow> 97 \<le> c \<and> c \<le> 122"

definition is_digit :: "nat \<Rightarrow> bool" where
  "is_digit c \<longleftrightarrow> 48 \<le> c \<and> c \<le> 57"

text \<open>The lower-case form of the code point at index \<open>i\<close> of \<open>s\<close>.\<close>

definition lower_at :: "ucd \<Rightarrow> ustr \<Rightarrow> nat \<Rightarrow> ustr" where
  "lower_at U s i =
     (let c = s ! i in
      if c < 128 then [if is_ascii_upper c then c + 32 else c]
      else lower_full U s i)"

text \<open>\<open>text.lower()\<close>\<close>

definition str_lower :: "ucd \<Rightarrow> ustr \<Rightarrow> ustr" where
  "str_lower U s = concat (map (lower_at U s) [0..<length s])"

text \<open>
  \<open>text.title()\<close>: a code point that follows a cased one is lower-cased, any other is
  title-cased.
\<close>

definition title_of :: "ucd \<Rightarrow> nat \<Rightarrow> ustr" where
  "title_of U c =
     (if c < 128 then [if is_ascii_lower c then c - 32 else c] else title_full U c)"

definition is_cased :: "ucd \<Rightarrow> nat \<Rightarrow> bool" where
  "is_cased U c =
     (if c < 128 then is_ascii_upper c \<or> is_ascii_lower c else cased U c)"

fun do_title :: "ucd \<Rightarrow> ustr \<Rightarrow> bool \<Rightarrow> nat list \<Rightarrow> ustr" where
  "do_title U s previous_is_cased [] = []"
| "do_title U s previous_is_cased (i # is) =
     (if previous_is_cased then lower_at U s i else title_of U (s ! i))
     @ do_title U s (is_cased U (s ! i)) is"

definition str_title :: "ucd \<Rightarrow> ustr \<Rightarrow> ustr" where
  "str_title U s = do_title U s False [0..<length s]"

text \<open>
  Stand-in tables that know no case beyond ASCII. They serve where a concrete input is
  evaluated; on an ASCII input no table is consulted, so the result is the same for
  every table.
\<close>

definition ascii_only :: ucd where
  "ascii_only = \<lparr>lower_full = (\<lambda>s i. [s ! i]), title_full = (\<lambda>c. [c]), cased = (\<lambda>c. False)\<rparr>"

text \<open>\<open>text.replace(old, new)\<close> for one-character \<open>old\<close> and \<open>new\<close>.\<close>

definition replace_char :: "nat \<Rightarrow> nat \<Rightarrow> ustr \<Rightarrow> ustr" where
  "replace_char old new s = map (\<lambda>c. if c = old then new else c) s"

text \<open>\<open>text.strip(c)\<close> for a single character \<open>c\<close>.\<close>

definition strip_char :: "nat \<Rightarrow> ustr \<Rightarrow> ustr" where
  "strip_char c s = rev (dropWhile (\<lambda>x. x = c) (rev (dropWhile (\<lambda>x. x = c) s)))"

text \<open>\<open>re.sub('[...]', r, text)\<close> for a character class given as a list and a
  one-character replacement: every code point of the class becomes \<open>r\<close>.\<close>

definition sub_class :: "nat list \<Rightarrow> nat \<Rightarrow> ustr \<Rightarrow> ustr" where
  "sub_class cls r s = map (\<lambda>c. if c \<in> set cls then r else c) s"

definition is_alnum :: "nat \<Rightarrow> bool" where
  "is_alnum c \<longleftrightarrow> is_ascii_lower c \<or> is_digit c"

abbreviation hyphen :: nat where "hyphen \<equiv> 45"
abbreviation underscore :: nat where "underscore \<equiv> 95"
abbreviation colon :: nat where "colon \<equiv> 58"
abbreviation space :: nat where "space \<equiv> 32"

text \<open>
  \<open>re.sub(r'[^a-z0-9]+', '-', text)\<close>: scanning from the left, each maximal run of
  code points outside \<open>[a-z0-9]\<close> is replaced by one hyphen.
\<close>

function sub_runs :: "ustr \<Rightarrow> ustr" where
  "sub_runs [] = []"
| "sub_runs (c # cs) =
     (if is_alnum c then c # sub_runs cs
      else hyphen # sub_runs (dropWhile (\<lambda>x. \<not> is_alnum x) cs))"
  by pat_completeness auto
termination
  by (relation "measure length") (auto simp: le_imp_less_Suc length_dropWhile_le)

section \<open>Normalizer\<close>

text \<open>The six accent-folding substitutions of \<open>slugify\<close>, in the order of the source;
  \<open>slugify\<close> itself is written out line by line below.\<close>

definition fold_accents :: "ustr \<Rightarrow> ustr" where
  "fold_accents text =
     sub_class [0xE7] 99
       (sub_class [0xF9, 0xFA, 0xFB, 0xFC] 117
         (sub_class [0xF2, 0xF3, 0xF4, 0xF5, 0xF6] 111
           (sub_class [0xEC, 0xED, 0xEE, 0xEF] 105
             (sub_class [0xE8, 0xE9, 0xEA, 0xEB] 101
               (sub_class [0xE0, 0xE1, 0xE2, 0xE3, 0xE4, 0xE5] 97 text)))))"

definition slugify :: "ucd \<Rightarrow> ustr \<Rightarrow> ustr" where
  "slugify U text =
     (let text = str_lower U text;
          text = sub_class [0xE0, 0xE1, 0xE2, 0xE3, 0xE4, 0xE5] 97 text;
          text = sub_class [0xE8, 0xE9, 0xEA, 0xEB] 101 text;
          text = sub_class [0xEC, 0xED, 0xEE, 0xEF] 105 text;
          text = sub_class [0xF2, 0xF3, 0xF4, 0xF5, 0xF6] 111 text;
          text = sub_class [0xF9, 0xFA, 0xFB, 0xFC] 117 text;
          text = sub_class [0xE7] 99 text;
          text = sub_runs text;
          text = strip_char hyphen text
      in text)"

definition to_snake_case :: "ucd \<Rightarrow> ustr \<Rightarrow> ustr" where
  "to_snake_case U text = (let text = slugify U text in replace_char hyphen underscore text)"

definition to_label :: "ucd \<Rightarrow> ustr \<Rightarrow> ustr" where
  "to_label U text =
     str_title U (replace_char underscore space (replace_char hyphen space text))"

section \<open>Library functions the key generators call\<close>

subsection \<open>\<open>str.encode()\<close>: UTF-8, strict\<close>

datatype error =
    BadParameter ustr      \<comment> \<open>\<open>click.BadParameter(message)\<close>\<close>
  | UnicodeEncodeError
  | KeyError ustr

text \<open>
  A surrogate code point (\<open>0xD800\<close> to \<open>0xDFFF\<close>) has no UTF-8 form: the strict
  encoder raises \<open>UnicodeEncodeError\<close> there. A number from \<open>0x110000\<close> on is no code
  point; no Python string holds one, and the model rejects it in the same way.
\<close>

definition utf8 :: "nat \<Rightarrow> bytes option" where
  "utf8 c =
     (if c < 0x80 then Some [word_of_nat c]
      else if c < 0x800 then
        Some [word_of_nat (0xC0 + c div 64), word_of_nat (0x80 + c mod 64)]
      else if 0xD800 \<le> c \<and> c < 0xE000 then None
      else if c < 0x10000 then
        Some [word_of_nat (0xE0 + c div 4096), word_of_nat (0x80 + c div 64 mod 64),
              word_of_nat (0x80 + c mod 64)]
      else if c < 0x110000 then
        Some [word_of_nat (0xF0 + c div 262144), word_of_nat (0x80 + c div 4096 mod 64),
              word_of_nat (0x80 + c div 64 mod 64), word_of_nat (0x80 + c mod 64)]
      else None)"

fun encode :: "ustr \<Rightarrow> error + bytes" where
  "encode [] = Inr []"
| "encode (c # cs) =
     (case utf8 c of
        None \<Rightarrow> Inl UnicodeEncodeError
      | Some bs \<Rightarrow> (case encode cs of Inl e \<Rightarrow> Inl e | Inr rest \<Rightarrow> Inr (bs @ rest)))"

text \<open>The code points that can be encoded: the Unicode scalar values.\<close>

definition is_scalar :: "nat \<Rightarrow> bool" where
  "is_scalar c \<longleftrightarrow> c < 0xD800 \<or> (0xE000 \<le> c \<and> c < 0x110000)"

subsection \<open>\<open>hashlib.md5\<close> (RFC 1321)\<close>

definition md5_K :: "u32 list" where
  "md5_K =
    [0xd76aa478, 0xe8c7b756, 0x242070db, 0xc1bdceee,
     0xf57c0faf, 0x4787c62a, 0xa8304613, 0xfd469501,
     0x698098d8, 0x8b44f7af, 0xffff5bb1, 0x895cd7be,
     0x6b901122, 0xfd987193, 0xa679438e, 0x49b40821,
     0xf61e2562, 0xc040b340, 0x265e5a51, 0xe9b6c7aa,
     0xd62f105d, 0x02441453, 0xd8a1e681, 0xe7d3fbc8,
     0x21e1cde6, 0xc33707d6, 0xf4d50d87, 0x455a14ed,
     0xa9e3e905, 0xfcefa3f8, 0x676f02d9, 0x8d2a4c8a,
     0xfffa3942, 0x8771f681, 0x6d9d6122, 0xfde5380c,
     0xa4beea44, 0x4bdecfa9, 0xf6bb4b60, 0xbebfbc70,
     0x289b7ec6, 0xeaa127fa, 0xd4ef3085, 0x04881d05,
     0xd9d4d039, 0xe6db99e5, 0x1fa27cf8, 0xc4ac5665,
     0xf4292244, 0x432aff97, 0xab9423a7, 0xfc93a039,
     0x655b59c3, 0x8f0ccc92, 0xffeff47d, 0x85845dd1,
     0x6fa87e4f, 0xfe2ce6e0, 0xa3014314, 0x4e0811a1,
     0xf7537e82, 0xbd3af235, 0x2ad7d2bb, 0xeb86d391]"

definition md5_s :: "nat list" where
  "md5_s =
    [7, 12, 17, 22, 7, 12, 17, 22, 7, 12, 17, 22, 7, 12, 17, 22,
     5, 9, 14, 20, 5, 9, 14, 20, 5, 9, 14, 20, 5, 9, 14, 20,
     4, 11, 16, 23, 4, 11, 16, 23, 4, 11, 16, 23, 4, 11, 16, 23,
     6, 10, 15, 21, 6, 10, 15, 21, 6, 10, 15, 21, 6, 10, 15, 21]"

type_synonym md5_state = "u32 \<times> u32 \<times> u32 \<times> u32"

definition md5_step :: "u32 list \<Rightarrow> md5_state \<Rightarrow> nat \<Rightarrow> md5_state" where
  "md5_step M st i =
     (case st of (A, B, C, D) \<Rightarrow>
        let (F, g) =
              (if i < 16 then ((B AND C) OR (NOT B AND D), i)
               else if i < 32 then ((D AND B) OR (NOT D AND C), (5 * i + 1) mod 16)
               else if i < 48 then (B XOR C XOR D, (3 * i + 5) mod 16)
               else (C XOR (B OR NOT D), (7 * i) mod 16));
            F = F + A + md5_K ! i + M ! g
        in (D, B + word_rotl (md5_s ! i) F, B, C))"

definition le_word :: "bytes \<Rightarrow> u32" where
  "le_word bs = foldr (\<lambda>b w. push_bit 8 w OR ucast b) bs 0"

fun chunks :: "nat \<Rightarrow> 'a list \<Rightarrow> 'a list list" where
  "chunks n [] = []"
| "chunks n xs = (if n = 0 then [xs] else take n xs # chunks n (drop n xs))"

definition md5_block :: "md5_state \<Rightarrow> bytes \<Rightarrow> md5_state" where
  "md5_block st blk =
     (case st of (a0, b0, c0, d0) \<Rightarrow>
        case foldl (md5_step (map le_word (chunks 4 blk))) st [0..<64] of
          (A, B, C, D) \<Rightarrow> (a0 + A, b0 + B, c0 + C, d0 + D))"

definition le_bytes :: "nat \<Rightarrow> 'a::len word \<Rightarrow> bytes" where
  "le_bytes k w = map (\<lambda>i. ucast (drop_bit (8 * i) w)) [0..<k]"

definition md5_pad :: "bytes \<Rightarrow> bytes" where
  "md5_pad msg =
     msg @ [0x80] @ replicate ((55 + 64 - length msg mod 64) mod 64) 0
         @ le_bytes 8 (word_of_nat (8 * length msg) :: 64 word)"

definition md5_init :: md5_state where
  "md5_init = (0x67452301, 0xefcdab89, 0x98badcfe, 0x10325476)"

definition md5 :: "bytes \<Rightarrow> bytes" where
  "md5 msg =
     (case foldl md5_block md5_init (chunks 64 (md5_pad msg)) of
        (a, b, c, d) \<Rightarrow> concat (map (\<lambda>w. le_bytes 4 w) [a, b, c, d]))"

definition hex_digit :: "nat \<Rightarrow> nat" where
  "hex_digit n = (if n < 10 then 48 + n else 87 + n)"

definition hex_byte :: "8 word \<Rightarrow> ustr" where
  "hex_byte b = [hex_digit (unat b div 16), hex_digit (unat b mod 16)]"

definition hexdigest :: "bytes \<Rightarrow> ustr" where
  "hexdigest bs = concat (map hex_byte bs)"

section \<open>Field Type Registry\<close>

text \<open>
  The values the generator puts into its documents: strings, integers, booleans, lists
  and dictionaries. A dictionary keeps its keys in insertion order and holds each key
  once, so it is an association list with distinct keys: \<open>map_of\<close> reads it,
  \<open>AList.update\<close> stores a value (in place for a key already there, at the end for a
  new one) and \<open>AList.delete\<close> removes a key.
\<close>

datatype pyval =
    PStr ustr
  | PInt int
  | PBool bool
  | PList "pyval list"
  | PDict "(ustr \<times> pyval) list"

type_synonym pydict = "(ustr \<times> pyval) list"

text \<open>A dictionary display \<open>{k1: v1, k2: v2, ...}\<close>: the items are stored in turn.\<close>

definition dict_of :: "(ustr \<times> pyval) list \<Rightarrow> pydict" where
  "dict_of items = foldl (\<lambda>d (k, v). AList.update k v d) [] items"

definition SUPPORTED_TYPES :: "(ustr \<times> pydict) list" where
  "SUPPORTED_TYPES =
    [(lit ''text'', [(lit ''type'', PStr (lit ''text'')), (lit ''label'', PStr (lit ''Texte''))]),
     (lit ''textarea'',
        [(lit ''type'', PStr (lit ''textarea'')), (lit ''label'', PStr (lit ''Zone de texte''))]),
     (lit ''image'',
        [(lit ''type'', PStr (lit ''image'')), (lit ''label'', PStr (lit ''Image'')),
         (lit ''return_format'', PStr (lit ''array'')),
         (lit ''preview_size'', PStr (lit ''medium''))]),
     (lit ''number'',
        [(lit ''type'', PStr (lit ''number'')), (lit ''label'', PStr (lit ''Nombre''))]),
     (lit ''wysiwyg'',
        [(lit ''type'', PStr (lit ''wysiwyg'')),
         (lit ''label'', PStr (0xC9 # lit ''diteur WYSIWYG'')),
         (lit ''tabs'', PStr (lit ''all'')), (lit ''toolbar'', PStr (lit ''full''))]),
     (lit ''select'',
        [(lit ''type'', PStr (lit ''select'')),
         (lit ''label'', PStr (lit ''Liste d'' @ 0xE9 # lit ''roulante'')),
         (lit ''choices'',
            PDict [(lit ''option1'', PStr (lit ''Option 1'')),
                   (lit ''option2'', PStr (lit ''Option 2''))])]),
     (lit ''date'',
        [(lit ''type'', PStr (lit ''date_picker'')), (lit ''label'', PStr (lit ''Date'')),
         (lit ''display_format'', PStr (lit ''d/m/Y'')),
         (lit ''return_format'', PStr (lit ''Y-m-d''))])]"

section \<open>Field Parser\<close>

record Field =
  name :: ustr
  field_type :: ustr
  label :: ustr

text \<open>\<open>sep.join(parts)\<close>\<close>

fun join :: "ustr \<Rightarrow> ustr list \<Rightarrow> ustr" where
  "join sep [] = []"
| "join sep [x] = x"
| "join sep (x # y # ys) = x @ sep @ join sep (y # ys)"

text \<open>\<open>text.split(sep, 1)\<close> for a one-character \<open>sep\<close> that occurs in \<open>text\<close>: the
  parts before and after the first occurrence.\<close>

definition split1 :: "nat \<Rightarrow> ustr \<Rightarrow> ustr \<times> ustr" where
  "split1 sep s = (takeWhile (\<lambda>c. c \<noteq> sep) s, tl (dropWhile (\<lambda>c. c \<noteq> sep) s))"

abbreviation apostrophe :: nat where "apostrophe \<equiv> 39"

definition parse_field :: "ucd \<Rightarrow> ustr \<Rightarrow> error + Field" where
  "parse_field U field_str =
     (if colon \<notin> set field_str then
        Inl (BadParameter
          (lit ''Format invalide: '' @ field_str @ lit ''. Utilisez '' @ [apostrophe]
             @ lit ''nom:type'' @ [apostrophe]))
      else
        let (name, field_type) = split1 colon field_str in
        if field_type \<notin> set (map fst SUPPORTED_TYPES) then
          Inl (BadParameter
            (lit ''Type '' @ [apostrophe] @ field_type @ [apostrophe] @ lit '' non support''
               @ [0xE9] @ lit ''. Types valides: ''
               @ join (lit '', '') (map fst SUPPORTED_TYPES)))
        else
          Inr \<lparr>name = to_snake_case U name, field_type = field_type,
               label = to_label U name\<rparr>)"

section \<open>Deterministic Key Generator\<close>

definition generate_field_key :: "ustr \<Rightarrow> ustr \<Rightarrow> error + ustr" where
  "generate_field_key module_name field_name =
     (let unique_str = module_name @ [underscore] @ field_name in
      case encode unique_str of
        Inl e \<Rightarrow> Inl e
      | Inr bs \<Rightarrow>
          let hash_suffix = take 8 (hexdigest (md5 bs)) in Inr (lit ''field_'' @ hash_suffix))"

definition generate_group_key :: "ustr \<Rightarrow> error + ustr" where
  "generate_group_key module_name =
     (case encode module_name of
        Inl e \<Rightarrow> Inl e
      | Inr bs \<Rightarrow>
          let hash_suffix = take 8 (hexdigest (md5 bs)) in Inr (lit ''group_'' @ hash_suffix))"

section \<open>Schema Builder\<close>

definition build_acf_field :: "Field \<Rightarrow> ustr \<Rightarrow> nat \<Rightarrow> error + pydict" where
  "build_acf_field field module_name order =
     (case map_of SUPPORTED_TYPES (field_type field) of
        None \<Rightarrow> Inl (KeyError (field_type field))
      | Some type_config \<Rightarrow>
         (case map_of type_config (lit ''type'') of
            None \<Rightarrow> Inl (KeyError (lit ''type''))
          | Some field_type' \<Rightarrow>
              let type_config = AList.delete (lit ''type'') type_config;
                  type_config = AList.delete (lit ''label'') type_config
              in (case generate_field_key module_name (name field) of
                    Inl e \<Rightarrow> Inl e
                  | Inr key \<Rightarrow>
                      Inr (dict_of
                       ([(lit ''key'', PStr key),
                         (lit ''label'', PStr (label field)),
                         (lit ''name'', PStr (name field)),
                         (lit ''type'', field_type'),
                         (lit ''instructions'', PStr []),
                         (lit ''required'', PInt 0),
                         (lit ''conditional_logic'', PInt 0),
                         (lit ''wrapper'',
                            PDict (dict_of [(lit ''width'', PStr []), (lit ''class'', PStr []),
                                            (lit ''id'', PStr [])]))]
                        @ type_config)))))"

text \<open>A list comprehension over a function that may raise: the first error ends it.\<close>

fun collect :: "('a \<Rightarrow> error + 'b) \<Rightarrow> 'a list \<Rightarrow> error + 'b list" where
  "collect f [] = Inr []"
| "collect f (x # xs) =
     (case f x of
        Inl e \<Rightarrow> Inl e
      | Inr y \<Rightarrow> (case collect f xs of Inl e \<Rightarrow> Inl e | Inr ys \<Rightarrow> Inr (y # ys)))"

text \<open>
  \<open>now\<close> is what the clock gives when the document is built, the value of
  \<open>int(datetime.now().timestamp())\<close>; it is the one input that is not an argument of the
  source function.
\<close>

definition build_acf_json :: "int \<Rightarrow> ustr \<Rightarrow> ustr \<Rightarrow> Field list \<Rightarrow> error + pydict" where
  "build_acf_json now module_name slug flds =
     (case collect (\<lambda>(i, field). build_acf_field field module_name i) (enumerate 0 flds) of
        Inl e \<Rightarrow> Inl e
      | Inr acf_fields \<Rightarrow>
         (case generate_group_key module_name of
            Inl e \<Rightarrow> Inl e
          | Inr key \<Rightarrow>
              Inr (dict_of
                [(lit ''key'', PStr key),
                 (lit ''title'', PStr (lit ''Champs '' @ module_name)),
                 (lit ''fields'', PList (map PDict acf_fields)),
                 (lit ''location'',
                    PList [PList [PDict (dict_of
                      [(lit ''param'', PStr (lit ''post_type'')),
                       (lit ''operator'', PStr (lit ''=='')),
                       (lit ''value'', PStr slug)])]]),
                 (lit ''menu_order'', PInt 0),
                 (lit ''position'', PStr (lit ''normal'')),
                 (lit ''style'', PStr (lit ''default'')),
                 (lit ''label_placement'', PStr (lit ''top'')),
                 (lit ''instruction_placement'', PStr (lit ''label'')),
                 (lit ''hide_on_screen'', PStr []),
                 (lit ''active'', PBool True),
                 (lit ''description'',
                    PStr (lit ''Groupe de champs pour le module '' @ module_name)),
                 (lit ''show_in_rest'', PInt 1),
                 (lit ''modified'', PInt now)])))"

section \<open>The specification's reading of the normalizer\<close>

text \<open>
  The specification describes \<open>slugify\<close> by its result: after lowering and accent
  folding, every run of characters outside \<open>[a-z0-9]\<close> is replaced by one hyphen, and
  the hyphens at both ends are trimmed. In other words the maximal runs of characters
  from \<open>[a-z0-9]\<close> (the words of the text) are kept, in order, with one hyphen between
  neighbours. The two definitions below say this without the regular expression and
  without \<open>strip\<close>; the refinement theorem compares them with \<open>slugify\<close> as the source
  has it.
\<close>

function alnum_words :: "ustr \<Rightarrow> ustr list" where
  "alnum_words [] = []"
| "alnum_words (c # cs) =
     (if is_alnum c then takeWhile is_alnum (c # cs) # alnum_words (dropWhile is_alnum cs)
      else alnum_words cs)"
  by pat_completeness auto
termination
  by (relation "measure length") (auto simp: le_imp_less_Suc length_dropWhile_le)

definition slugify_spec :: "ucd \<Rightarrow> ustr \<Rightarrow> ustr" where
  "slugify_spec U text = join [hyphen] (alnum_words (fold_accents (str_lower U text)))"

text \<open>\<open>text.rstrip('-')\<close>, the right half of \<open>strip\<close>; it serves in the proofs.\<close>

definition trim_r :: "ustr \<Rightarrow> ustr" where
  "trim_r x = rev (dropWhile (\<lambda>c. c = hyphen) (rev x))"

section \<open>Properties of the normalizer\<close>

lemma slugify_unfold:
  "slugify U s = strip_char hyphen (sub_runs (fold_accents (str_lower U s)))"
  by (simp add: slugify_def fold_accents_def)

lemma hyphen_not_alnum: "\<not> is_alnum hyphen"
  by (simp add: is_alnum_def is_ascii_lower_def is_digit_def)

lemma sub_runs_chars: "set (sub_runs s) \<subseteq> {c. is_alnum c \<or> c = hyphen}"
  by (induction s rule: sub_runs.induct) auto

lemma sub_runs_head:
  assumes "sub_runs s = hyphen # r"
  shows "\<exists>c cs. s = c # cs \<and> \<not> is_alnum c"
  using assms hyphen_not_alnum by (cases s) (auto split: if_splits)

lemma sub_runs_dropWhile_head:
  "sub_runs (dropWhile (\<lambda>x. \<not> is_alnum x) cs) \<noteq> hyphen # r"
proof
  assume "sub_runs (dropWhile (\<lambda>x. \<not> is_alnum x) cs) = hyphen # r"
  then obtain c t where eq: "dropWhile (\<lambda>x. \<not> is_alnum x) cs = c # t" and c: "\<not> is_alnum c"
    using sub_runs_head by blast
  with hd_dropWhile [of "\<lambda>x. \<not> is_alnum x" cs] show False by simp
qed

lemma sub_runs_no_double: "sub_runs s \<noteq> xs @ [hyphen, hyphen] @ ys"
proof (induction s arbitrary: xs rule: sub_runs.induct)
  case 1
  show ?case by simp
next
  case (2 c cs)
  show ?case
  proof (cases "is_alnum c")
    case True
    with 2(1) hyphen_not_alnum show ?thesis
      by (cases xs) auto
  next
    case False
    with 2(2) sub_runs_dropWhile_head show ?thesis
      by (cases xs) auto
  qed
qed

lemma strip_char_set: "set (strip_char c s) \<subseteq> set s"
  unfolding strip_char_def by (metis set_dropWhileD set_rev subsetI)

lemma strip_char_prefix: "\<exists>q. dropWhile (\<lambda>x. x = c) s = strip_char c s @ q"
proof -
  let ?P = "\<lambda>x. x = c"
  let ?r = "rev (dropWhile ?P s)"
  have "rev ?r = rev (takeWhile ?P ?r @ dropWhile ?P ?r)"
    by (simp only: takeWhile_dropWhile_id)
  then have "dropWhile ?P s = rev (dropWhile ?P ?r) @ rev (takeWhile ?P ?r)"
    by (simp only: rev_rev_ident rev_append)
  then show ?thesis unfolding strip_char_def by blast
qed

lemma strip_char_infix: "\<exists>p q. s = p @ strip_char c s @ q"
proof -
  obtain q where "dropWhile (\<lambda>x. x = c) s = strip_char c s @ q"
    using strip_char_prefix by blast
  then have "s = takeWhile (\<lambda>x. x = c) s @ strip_char c s @ q"
    by (metis takeWhile_dropWhile_id)
  then show ?thesis by blast
qed

lemma strip_char_no_lead: "strip_char c s \<noteq> c # t"
proof
  assume a: "strip_char c s = c # t"
  obtain q where "dropWhile (\<lambda>x. x = c) s = strip_char c s @ q"
    using strip_char_prefix by blast
  with a have "dropWhile (\<lambda>x. x = c) s = c # t @ q" by simp
  with hd_dropWhile [of "\<lambda>x. x = c" s] show False by simp
qed

lemma strip_char_no_trail: "strip_char c s \<noteq> t @ [c]"
proof
  assume "strip_char c s = t @ [c]"
  then have "rev (strip_char c s) = c # rev t" by simp
  then have "dropWhile (\<lambda>x. x = c) (rev (dropWhile (\<lambda>x. x = c) s)) = c # rev t"
    by (simp add: strip_char_def)
  with hd_dropWhile [of "\<lambda>x. x = c" "rev (dropWhile (\<lambda>x. x = c) s)"] show False by simp
qed

lemma strip_char_no_double:
  assumes "\<And>xs ys. s \<noteq> xs @ [h, h] @ ys"
  shows "strip_char c s \<noteq> xs @ [h, h] @ ys"
proof
  assume a: "strip_char c s = xs @ [h, h] @ ys"
  obtain p q where "s = p @ strip_char c s @ q" using strip_char_infix by blast
  with a have "s = (p @ xs) @ [h, h] @ (ys @ q)" by simp
  with assms show False by blast
qed

lemma slugify_chars: "set (slugify U s) \<subseteq> {c. is_alnum c \<or> c = hyphen}"
  using strip_char_set sub_runs_chars unfolding slugify_unfold by blast

lemma slugify_no_double: "slugify U s \<noteq> xs @ [hyphen, hyphen] @ ys"
  unfolding slugify_unfold by (rule strip_char_no_double) (rule sub_runs_no_double)

lemma filter_alnum_sub_runs: "filter is_alnum (sub_runs s) = filter is_alnum s"
proof (induction s rule: sub_runs.induct)
  case 1 show ?case by simp
next
  case (2 c cs)
  have "filter is_alnum (dropWhile (\<lambda>x. \<not> is_alnum x) cs) = filter is_alnum cs"
    by (induction cs) auto
  with 2 hyphen_not_alnum show ?case by auto
qed

lemma filter_strip_char: "\<not> P c \<Longrightarrow> filter P (strip_char c s) = filter P s"
proof -
  assume c: "\<not> P c"
  have dw: "filter P (dropWhile (\<lambda>x. x = c) t) = filter P t" for t
    using c by (induction t) auto
  show ?thesis by (simp add: strip_char_def dw flip: rev_filter)
qed

lemma slugify_alnum: "filter is_alnum (slugify U s) = filter is_alnum (fold_accents (str_lower U s))"
  by (simp add: slugify_unfold filter_strip_char hyphen_not_alnum filter_alnum_sub_runs)

lemma trim_r_snoc_hyphen: "trim_r (x @ [hyphen]) = trim_r x"
  by (simp add: trim_r_def)

lemma trim_r_snoc_other: "c \<noteq> hyphen \<Longrightarrow> trim_r (x @ [c]) = x @ [c]"
  by (simp add: trim_r_def)

lemma trim_r_append: "trim_r y \<noteq> [] \<Longrightarrow> trim_r (x @ y) = x @ trim_r y"
proof -
  assume a: "trim_r y \<noteq> []"
  then have "dropWhile (\<lambda>c. c = hyphen) (rev y) \<noteq> []" by (simp add: trim_r_def)
  then obtain z where "z \<in> set (rev y)" and "z \<noteq> hyphen"
    by (auto simp: dropWhile_eq_Nil_conv)
  then have "dropWhile (\<lambda>c. c = hyphen) (rev y @ rev x)
      = dropWhile (\<lambda>c. c = hyphen) (rev y) @ rev x"
    by (intro dropWhile_append1) auto
  then show ?thesis by (simp add: trim_r_def)
qed

lemma strip_char_trim_r: "strip_char hyphen x = trim_r (dropWhile (\<lambda>c. c = hyphen) x)"
  by (simp add: strip_char_def trim_r_def)

lemma sub_runs_word:
  "\<forall>c \<in> set w. is_alnum c \<Longrightarrow> sub_runs (w @ t) = w @ sub_runs t"
  by (induction w) auto

lemma alnum_words_skip:
  "\<forall>c \<in> set r. \<not> is_alnum c \<Longrightarrow> alnum_words (r @ t) = alnum_words t"
  by (induction r) auto

lemma alnum_words_dropWhile:
  "alnum_words (dropWhile (\<lambda>x. \<not> is_alnum x) t) = alnum_words t"
  by (induction t) auto

lemma join_Cons:
  "ws \<noteq> [] \<Longrightarrow> join sep (w # ws) = w @ sep @ join sep ws"
  by (cases ws) auto

lemma alnum_words_nonempty: "w \<in> set (alnum_words t) \<Longrightarrow> w \<noteq> []"
  by (induction t arbitrary: w rule: alnum_words.induct) (auto split: if_splits)

lemma join_nonempty:
  assumes "ws \<noteq> []" and "\<forall>w \<in> set ws. w \<noteq> []"
  shows "join sep ws \<noteq> []"
  using assms by (cases "(sep, ws)" rule: join.cases) auto

text \<open>A text that is empty or starts with a word: only the right end is left to trim.\<close>

lemma trim_sub_runs:
  "t = [] \<or> is_alnum (hd t) \<Longrightarrow> trim_r (sub_runs t) = join [hyphen] (alnum_words t)"
proof (induction t rule: length_induct)
  case (1 t)
  show ?case
  proof (cases t)
    case Nil
    then show ?thesis by (simp add: trim_r_def)
  next
    case (Cons c cs)
    with 1(2) have c: "is_alnum c" by simp
    let ?w = "takeWhile is_alnum (c # cs)"
    let ?rest = "dropWhile is_alnum cs"
    have w: "\<forall>x \<in> set ?w. is_alnum x" using set_takeWhileD by fastforce
    from c have wne: "?w \<noteq> []" by simp
    have tsplit: "t = ?w @ ?rest" using Cons c by simp
    have sr: "sub_runs t = ?w @ sub_runs ?rest"
      by (subst tsplit) (rule sub_runs_word [OF w])
    from c Cons have words: "alnum_words t = ?w # alnum_words ?rest" by simp
    have "last ?w \<in> set ?w" using wne by (rule last_in_set)
    with w have "is_alnum (last ?w)" by blast
    with hyphen_not_alnum have last_w: "last ?w \<noteq> hyphen" by auto
    have trim_w: "trim_r ?w = ?w"
      using wne last_w trim_r_snoc_other [of "last ?w" "butlast ?w"] by simp
    show ?thesis
    proof (cases ?rest)
      case Nil
      with sr words trim_w show ?thesis by simp
    next
      case rest: (Cons d ds)
      have d: "\<not> is_alnum d"
        using hd_dropWhile [of is_alnum cs] rest by simp
      let ?next = "dropWhile (\<lambda>x. \<not> is_alnum x) ds"
      from rest d have sr2: "sub_runs ?rest = hyphen # sub_runs ?next" by simp
      have words2: "alnum_words ?rest = alnum_words ?next"
        using rest d by (simp add: alnum_words_dropWhile)
      have shorter: "length ?next < length t"
      proof -
        have "length ?next \<le> length ds" by (rule length_dropWhile_le)
        also have "length ds < length ?rest" using rest by simp
        also have "length ?rest \<le> length cs" by (rule length_dropWhile_le)
        finally show ?thesis using Cons by simp
      qed
      have head: "?next = [] \<or> is_alnum (hd ?next)"
        using hd_dropWhile [of "\<lambda>x. \<not> is_alnum x" ds] by auto
      from 1(1) shorter head
      have IH: "trim_r (sub_runs ?next) = join [hyphen] (alnum_words ?next)" by blast
      show ?thesis
      proof (cases "?next = []")
        case True
        then have "sub_runs ?next = []" and "alnum_words ?next = []"
          by (simp_all only: sub_runs.simps alnum_words.simps)
        with sr sr2 words words2
        have "sub_runs t = ?w @ [hyphen]" and "alnum_words t = [?w]"
          by simp_all
        with trim_w show ?thesis by (simp add: trim_r_snoc_hyphen)
      next
        case False
        with head have "is_alnum (hd ?next)" by blast
        with False have "alnum_words ?next \<noteq> []" by (cases ?next) auto
        then have ne: "join [hyphen] (alnum_words ?next) \<noteq> []"
          using alnum_words_nonempty by (intro join_nonempty) auto
        with IH have "trim_r (sub_runs ?next) \<noteq> []" by simp
        then have "trim_r ((?w @ [hyphen]) @ sub_runs ?next)
            = (?w @ [hyphen]) @ trim_r (sub_runs ?next)"
          by (rule trim_r_append)
        with sr sr2 IH have "trim_r (sub_runs t)
            = ?w @ [hyphen] @ join [hyphen] (alnum_words ?next)"
          by simp
        moreover from words words2 \<open>alnum_words ?next \<noteq> []\<close>
        have "join [hyphen] (alnum_words t) = ?w @ [hyphen] @ join [hyphen] (alnum_words ?next)"
          by (simp add: join_Cons)
        ultimately show ?thesis by simp
      qed
    qed
  qed
qed

lemma sub_runs_lead:
  "dropWhile (\<lambda>c. c = hyphen) (sub_runs t) = sub_runs (dropWhile (\<lambda>x. \<not> is_alnum x) t)"
proof (cases t)
  case Nil
  then show ?thesis by simp
next
  case (Cons c cs)
  show ?thesis
  proof (cases "is_alnum c")
    case True
    with Cons hyphen_not_alnum show ?thesis by auto
  next
    case False
    let ?next = "dropWhile (\<lambda>x. \<not> is_alnum x) cs"
    have "dropWhile (\<lambda>c. c = hyphen) (sub_runs ?next) = sub_runs ?next"
    proof (cases "sub_runs ?next")
      case Nil
      then show ?thesis by simp
    next
      case (Cons x xs)
      with sub_runs_dropWhile_head [of cs xs] have "x \<noteq> hyphen" by auto
      with Cons show ?thesis by simp
    qed
    with Cons False show ?thesis by simp
  qed
qed

lemma strip_sub_runs: "strip_char hyphen (sub_runs t) = join [hyphen] (alnum_words t)"
proof -
  let ?next = "dropWhile (\<lambda>x. \<not> is_alnum x) t"
  have "?next = [] \<or> is_alnum (hd ?next)"
    using hd_dropWhile [of "\<lambda>x. \<not> is_alnum x" t] by auto
  then have "trim_r (sub_runs ?next) = join [hyphen] (alnum_words ?next)"
    by (rule trim_sub_runs)
  then show ?thesis
    by (simp add: strip_char_trim_r sub_runs_lead alnum_words_dropWhile)
qed

lemma slugify_refines: "slugify U s = slugify_spec U s"
  by (simp add: slugify_unfold slugify_spec_def strip_sub_runs)

text \<open>
  What \<open>alnum_words\<close> computes, by the shape of the text: a run of other characters
  contributes nothing, and a word followed by the end or by another character is the
  next word.
\<close>

lemma alnum_words_word:
  assumes "w \<noteq> []" and "\<forall>c \<in> set w. is_alnum c" and "t = [] \<or> \<not> is_alnum (hd t)"
  shows "alnum_words (w @ t) = w # alnum_words t"
proof -
  from assms(1) obtain c cs where w: "w = c # cs" by (cases w) auto
  from assms(2) have tw: "takeWhile is_alnum (w @ t) = w @ takeWhile is_alnum t"
    by (induction w) auto
  from assms(2) have dw: "dropWhile is_alnum (w @ t) = dropWhile is_alnum t"
    by (induction w) auto
  from assms(3) have "takeWhile is_alnum t = []" and "dropWhile is_alnum t = t"
    by (cases t; simp)+
  with tw dw have tw': "takeWhile is_alnum (w @ t) = w" and dw': "dropWhile is_alnum (w @ t) = t"
    by simp_all
  from w assms(2) have c: "is_alnum c" by simp
  have "alnum_words (w @ t)
      = takeWhile is_alnum (w @ t) # alnum_words (dropWhile is_alnum (cs @ t))"
    using w c by simp
  moreover from c w have "dropWhile is_alnum (cs @ t) = dropWhile is_alnum (w @ t)" by simp
  ultimately show ?thesis by (simp only: tw' dw')
qed

text \<open>The simplest case: two words and the run between them.\<close>

lemma slugify_one_run:
  assumes decomp: "fold_accents (str_lower U s) = w1 @ r @ w2"
    and w1: "w1 \<noteq> []" "\<forall>c \<in> set w1. is_alnum c"
    and r: "r \<noteq> []" "\<forall>c \<in> set r. \<not> is_alnum c"
    and w2: "w2 \<noteq> []" "\<forall>c \<in> set w2. is_alnum c"
  shows "slugify U s = w1 @ [hyphen] @ w2"
proof -
  from r have "r @ w2 = [] \<or> \<not> is_alnum (hd (r @ w2))" by (cases r) auto
  with w1 have "alnum_words (w1 @ r @ w2) = w1 # alnum_words (r @ w2)"
    by (rule alnum_words_word)
  also from r(2) have "alnum_words (r @ w2) = alnum_words w2"
    by (rule alnum_words_skip)
  also from w2 have "alnum_words (w2 @ []) = w2 # alnum_words []"
    by (rule alnum_words_word) simp
  then have "alnum_words w2 = [w2]" by simp
  finally have "alnum_words (fold_accents (str_lower U s)) = [w1, w2]"
    using decomp by simp
  then show ?thesis
    by (simp add: slugify_refines slugify_spec_def)
qed

text \<open>
  C6. For every input string, and whatever the Unicode tables say beyond ASCII,
  \<open>slugify\<close> returns the words of the lowered and accent-folded input joined by single
  hyphens: every run of characters outside \<open>[a-z0-9]\<close> between two words is replaced by
  exactly one hyphen, and the runs at both ends are dropped. Hence the output contains
  only characters from \<open>[a-z0-9-]\<close>, neither starts nor ends with a hyphen, holds no
  two hyphens in a row, and its characters from \<open>[a-z0-9]\<close> are those of the lowered
  and folded input, in the same order.
\<close>

theorem slugify_shape:
  "slugify U s = slugify_spec U s
   \<and> set (slugify U s) \<subseteq> {c. is_ascii_lower c \<or> is_digit c \<or> c = hyphen}
   \<and> \<not> (\<exists>t. slugify U s = hyphen # t)
   \<and> \<not> (\<exists>t. slugify U s = t @ [hyphen])
   \<and> \<not> (\<exists>xs ys. slugify U s = xs @ [hyphen, hyphen] @ ys)
   \<and> filter is_alnum (slugify U s) = filter is_alnum (fold_accents (str_lower U s))"
proof -
  have refines: "slugify U s = slugify_spec U s"
    by (rule slugify_refines)
  have chars: "set (slugify U s) \<subseteq> {c. is_ascii_lower c \<or> is_digit c \<or> c = hyphen}"
    using slugify_chars [of U s] by (auto simp: is_alnum_def)
  have lead: "\<not> (\<exists>t. slugify U s = hyphen # t)"
    by (simp add: slugify_unfold strip_char_no_lead)
  have trail: "\<not> (\<exists>t. slugify U s = t @ [hyphen])"
    by (simp add: slugify_unfold strip_char_no_trail)
  have double: "\<not> (\<exists>xs ys. slugify U s = xs @ [hyphen, hyphen] @ ys)"
    using slugify_no_double by blast
  have kept: "filter is_alnum (slugify U s) = filter is_alnum (fold_accents (str_lower U s))"
    by (rule slugify_alnum)
  show ?thesis
    by (intro conjI) (rule refines, rule chars, rule lead, rule trail, rule double, rule kept)
qed

text \<open>
  An input with accents, runs of separators and surrounding blanks: its words are
  \<open>cafe\<close>, \<open>the\<close>, \<open>n\<close> and \<open>42\<close>.
\<close>

lemma eval_slugify:
  "slugify ascii_only (lit ''  Caf'' @ [0xE9] @ lit '' & Th'' @ [0xE9] @ lit '' -- N'' @ [0xB0] @ lit ''42! '')
     = lit ''cafe-the-n-42''"
  by code_simp

lemma eval_slugify_words:
  "alnum_words (fold_accents (str_lower ascii_only
       (lit ''  Caf'' @ [0xE9] @ lit '' & Th'' @ [0xE9] @ lit '' -- N'' @ [0xB0] @ lit ''42! '')))
     = [lit ''cafe'', lit ''the'', lit ''n'', lit ''42'']"
  by code_simp

theorem slugify_shape_witness:
  "slugify ascii_only (lit ''  Caf'' @ [0xE9] @ lit '' & Th'' @ [0xE9] @ lit '' -- N'' @ [0xB0] @ lit ''42! '')
     = lit ''cafe-the-n-42''
   \<and> alnum_words (fold_accents (str_lower ascii_only
       (lit ''  Caf'' @ [0xE9] @ lit '' & Th'' @ [0xE9] @ lit '' -- N'' @ [0xB0] @ lit ''42! '')))
     = [lit ''cafe'', lit ''the'', lit ''n'', lit ''42'']
   \<and> slugify_spec ascii_only (lit ''  Caf'' @ [0xE9] @ lit '' & Th'' @ [0xE9] @ lit '' -- N'' @ [0xB0] @ lit ''42! '')
     = lit ''cafe-the-n-42''
   \<and> set (lit ''cafe-the-n-42'') \<subseteq> {c. is_ascii_lower c \<or> is_digit c \<or> c = hyphen}
   \<and> \<not> (\<exists>t. lit ''cafe-the-n-42'' = hyphen # t)
   \<and> \<not> (\<exists>t. lit ''cafe-the-n-42'' = t @ [hyphen])
   \<and> \<not> (\<exists>xs ys. lit ''cafe-the-n-42'' = xs @ [hyphen, hyphen] @ ys)"
proof -
  note shape = slugify_shape [of ascii_only
      "(lit ''  Caf'' @ [0xE9] @ lit '' & Th'' @ [0xE9] @ lit '' -- N'' @ [0xB0] @ lit ''42! '')",
      unfolded eval_slugify]
  show ?thesis
    by (intro conjI)
       (rule eval_slugify, rule eval_slugify_words,
        rule shape [THEN conjunct1, symmetric],
        rule shape [THEN conjunct2, THEN conjunct1],
        rule shape [THEN conjunct2, THEN conjunct2, THEN conjunct1],
        rule shape [THEN conjunct2, THEN conjunct2, THEN conjunct2, THEN conjunct1],
        rule shape [THEN conjunct2, THEN conjunct2, THEN conjunct2, THEN conjunct2,
                    THEN conjunct1])
qed

text \<open>
  C7. For every input string \<open>x\<close>, \<open>to_snake_case(x)\<close> is \<open>slugify(x)\<close> with every
  hyphen replaced by an underscore.
\<close>

theorem to_snake_case_slugify:
  "to_snake_case U x = replace_char hyphen underscore (slugify U x)"
  by (simp add: to_snake_case_def)

section \<open>Properties of the field parser\<close>

lemma lit_Nil: "lit [] = []"
  by (simp add: lit_def)

lemma lit_Cons: "lit (c # cs) = of_char c # lit cs"
  by (simp add: lit_def)

lemmas lit_simps = lit_Nil lit_Cons

lemma registry_keys:
  "map fst SUPPORTED_TYPES =
     [lit ''text'', lit ''textarea'', lit ''image'', lit ''number'', lit ''wysiwyg'',
      lit ''select'', lit ''date'']"
  by (simp add: SUPPORTED_TYPES_def)

lemma tags_listing:
  "join (lit '', '') (map fst SUPPORTED_TYPES)
     = lit ''text, textarea, image, number, wysiwyg, select, date''"
  by (simp add: registry_keys lit_simps)

lemma split1_at:
  assumes "sep \<notin> set n"
  shows "split1 sep (n @ sep # t) = (n, t)"
proof -
  have "takeWhile (\<lambda>c. c \<noteq> sep) (n @ sep # t) = n"
    using assms by (induction n) auto
  moreover have "dropWhile (\<lambda>c. c \<noteq> sep) (n @ sep # t) = sep # t"
    using assms by (induction n) auto
  ultimately show ?thesis by (simp add: split1_def)
qed

lemma split1_decomp:
  assumes "sep \<in> set s"
  shows "s = fst (split1 sep s) @ sep # snd (split1 sep s) \<and> sep \<notin> set (fst (split1 sep s))"
proof -
  let ?d = "dropWhile (\<lambda>c. c \<noteq> sep) s"
  from assms have ne: "?d \<noteq> []" by (simp add: dropWhile_eq_Nil_conv)
  with hd_dropWhile [of "\<lambda>c. c \<noteq> sep" s] have "hd ?d = sep" by simp
  with ne have "?d = sep # tl ?d" by (cases ?d) auto
  then have "s = takeWhile (\<lambda>c. c \<noteq> sep) s @ sep # tl ?d"
    by (metis takeWhile_dropWhile_id)
  moreover have "sep \<notin> set (takeWhile (\<lambda>c. c \<noteq> sep) s)"
    using set_takeWhileD by fastforce
  ultimately show ?thesis by (simp add: split1_def)
qed

lemma parse_field_no_colon:
  "colon \<notin> set raw \<Longrightarrow>
   parse_field U raw =
     Inl (BadParameter (lit ''Format invalide: '' @ raw @ lit ''. Utilisez '' @ [apostrophe]
            @ lit ''nom:type'' @ [apostrophe]))"
  by (simp add: parse_field_def)

lemma parse_field_bad_type:
  "colon \<notin> set n \<Longrightarrow> t \<notin> set (map fst SUPPORTED_TYPES) \<Longrightarrow>
   parse_field U (n @ colon # t) =
     Inl (BadParameter (lit ''Type '' @ [apostrophe] @ t @ [apostrophe] @ lit '' non support''
            @ [0xE9] @ lit ''. Types valides: ''
            @ join (lit '', '') (map fst SUPPORTED_TYPES)))"
  by (simp add: parse_field_def split1_at)

lemma parse_field_ok:
  "colon \<notin> set n \<Longrightarrow> t \<in> set (map fst SUPPORTED_TYPES) \<Longrightarrow>
   parse_field U (n @ colon # t) =
     Inr \<lparr>name = to_snake_case U n, field_type = t, label = to_label U n\<rparr>"
  by (simp add: parse_field_def split1_at)

lemma parse_field_cases:
  "(colon \<notin> set raw \<and> (\<exists>m. parse_field U raw = Inl (BadParameter m)))
   \<or> (\<exists>n t. raw = n @ colon # t \<and> colon \<notin> set n \<and> t \<notin> set (map fst SUPPORTED_TYPES)
         \<and> (\<exists>m. parse_field U raw = Inl (BadParameter m)))
   \<or> (\<exists>n t. raw = n @ colon # t \<and> colon \<notin> set n \<and> t \<in> set (map fst SUPPORTED_TYPES)
         \<and> parse_field U raw = Inr \<lparr>name = to_snake_case U n, field_type = t, label = to_label U n\<rparr>)"
proof (cases "colon \<in> set raw")
  case False
  then show ?thesis using parse_field_no_colon by blast
next
  case True
  define n where "n = fst (split1 colon raw)"
  define t where "t = snd (split1 colon raw)"
  from True have raw: "raw = n @ colon # t" and n: "colon \<notin> set n"
    using split1_decomp [of colon raw] by (simp_all add: n_def t_def)
  show ?thesis
  proof (cases "t \<in> set (map fst SUPPORTED_TYPES)")
    case True
    with raw n parse_field_ok [of n t U] show ?thesis by blast
  next
    case False
    with raw n parse_field_bad_type [of n t U] show ?thesis by blast
  qed
qed


lemma to_snake_case_Prix: "to_snake_case U (lit ''Prix'') = lit ''prix''"
  by (simp add: to_snake_case_def slugify_def str_lower_def lower_at_def lit_simps sub_class_def
      is_ascii_upper_def is_alnum_def is_ascii_lower_def is_digit_def strip_char_def replace_char_def upt_conv_Cons)
lemma to_label_Prix: "to_label U (lit ''Prix'') = lit ''Prix''"
  by (simp add: to_label_def str_title_def title_of_def is_cased_def lower_at_def lit_simps
      is_ascii_upper_def is_ascii_lower_def replace_char_def upt_conv_Cons)
lemma underscore_not_alnum: "\<not> is_alnum underscore"
  by (simp add: is_alnum_def is_ascii_lower_def is_digit_def)

lemma snake_pre:
  assumes "c \<in> set (slugify U s)" and "(if c = hyphen then underscore else c) = underscore"
  shows "c = hyphen"
proof -
  from assms(1) slugify_chars [of U s] have "is_alnum c \<or> c = hyphen" by blast
  with assms(2) underscore_not_alnum show ?thesis by (auto split: if_splits)
qed

lemma snake_chars: "set (to_snake_case U s) \<subseteq> {c. is_alnum c \<or> c = underscore}"
  using slugify_chars [of U s] by (auto simp: to_snake_case_def replace_char_def)

lemma snake_no_lead: "to_snake_case U s \<noteq> underscore # t"
proof
  assume "to_snake_case U s = underscore # t"
  then obtain c r where sl: "slugify U s = c # r"
    and c: "(if c = hyphen then underscore else c) = underscore"
    by (auto simp: to_snake_case_def replace_char_def map_eq_Cons_conv)
  from sl have "c \<in> set (slugify U s)" by simp
  then have "c = hyphen" using c by (rule snake_pre)
  with sl strip_char_no_lead show False by (simp add: slugify_unfold)
qed

lemma snake_no_trail: "to_snake_case U s \<noteq> t @ [underscore]"
proof
  assume "to_snake_case U s = t @ [underscore]"
  then obtain r c where sl: "slugify U s = r @ [c]"
    and c: "(if c = hyphen then underscore else c) = underscore"
    by (auto simp: to_snake_case_def replace_char_def map_eq_append_conv map_eq_Cons_conv)
  from sl have "c \<in> set (slugify U s)" by simp
  then have "c = hyphen" using c by (rule snake_pre)
  with sl strip_char_no_trail show False by (simp add: slugify_unfold)
qed

lemma snake_no_double: "to_snake_case U s \<noteq> xs @ [underscore, underscore] @ ys"
proof
  assume "to_snake_case U s = xs @ [underscore, underscore] @ ys"
  then obtain p a b q where sl: "slugify U s = p @ [a, b] @ q"
    and a: "(if a = hyphen then underscore else a) = underscore"
    and b: "(if b = hyphen then underscore else b) = underscore"
    by (auto simp: to_snake_case_def replace_char_def map_eq_append_conv map_eq_Cons_conv)
  from sl have "a \<in> set (slugify U s)" and "b \<in> set (slugify U s)" by simp_all
  with a b have "a = hyphen" and "b = hyphen" by (auto intro: snake_pre)
  with sl slugify_no_double show False by blast
qed

text \<open>
  C3. \<open>parse_field\<close> fails exactly when the raw token holds no \<open>:\<close>, or when what follows
  its first \<open>:\<close> is no key of the registry; otherwise it succeeds. Every failure is a
  \<open>click.BadParameter\<close>. On the unsupported-type path the message lists every key of the
  registry, in the order the registry declares them, which is the same at every call:
  \<open>text, textarea, image, number, wysiwyg, select, date\<close>.
\<close>

theorem parse_field_fails_iff:
  "((\<exists>e. parse_field U raw = Inl e) \<longleftrightarrow>
      colon \<notin> set raw \<or>
      (\<exists>n t. raw = n @ colon # t \<and> colon \<notin> set n \<and> t \<notin> set (map fst SUPPORTED_TYPES)))
   \<and> ((\<exists>f. parse_field U raw = Inr f) \<longleftrightarrow>
      (\<exists>n t. raw = n @ colon # t \<and> colon \<notin> set n \<and> t \<in> set (map fst SUPPORTED_TYPES)))
   \<and> (\<forall>e. parse_field U raw = Inl e \<longrightarrow> (\<exists>message. e = BadParameter message))
   \<and> (colon \<notin> set raw \<longrightarrow>
        parse_field U raw =
          Inl (BadParameter (lit ''Format invalide: '' @ raw @ lit ''. Utilisez '' @ [apostrophe]
                 @ lit ''nom:type'' @ [apostrophe])))
   \<and> (colon \<notin> set n \<and> t \<notin> set (map fst SUPPORTED_TYPES) \<longrightarrow>
        parse_field U (n @ colon # t) =
          Inl (BadParameter (lit ''Type '' @ [apostrophe] @ t @ [apostrophe]
                 @ lit '' non support'' @ [0xE9]
                 @ lit ''. Types valides: text, textarea, image, number, wysiwyg, select, date'')))
   \<and> map fst SUPPORTED_TYPES =
        [lit ''text'', lit ''textarea'', lit ''image'', lit ''number'', lit ''wysiwyg'',
         lit ''select'', lit ''date'']"
proof -
  have fails: "(\<exists>e. parse_field U raw = Inl e) \<longleftrightarrow>
      colon \<notin> set raw \<or>
      (\<exists>n t. raw = n @ colon # t \<and> colon \<notin> set n \<and> t \<notin> set (map fst SUPPORTED_TYPES))"
    (is "?L \<longleftrightarrow> ?R")
  proof
    assume ?L
    with parse_field_cases [of raw U] show ?R by auto
  next
    assume ?R
    then show ?L using parse_field_no_colon parse_field_bad_type by blast
  qed
  have succeeds: "(\<exists>f. parse_field U raw = Inr f) \<longleftrightarrow>
      (\<exists>n t. raw = n @ colon # t \<and> colon \<notin> set n \<and> t \<in> set (map fst SUPPORTED_TYPES))"
    (is "?L \<longleftrightarrow> ?R")
  proof
    assume ?L
    with parse_field_cases [of raw U] show ?R by auto
  next
    assume ?R
    then show ?L using parse_field_ok by blast
  qed
  have kind: "\<forall>e. parse_field U raw = Inl e \<longrightarrow> (\<exists>message. e = BadParameter message)"
    using parse_field_cases [of raw U] by auto
  have listing: "colon \<notin> set n \<and> t \<notin> set (map fst SUPPORTED_TYPES) \<longrightarrow>
        parse_field U (n @ colon # t) =
          Inl (BadParameter (lit ''Type '' @ [apostrophe] @ t @ [apostrophe]
                 @ lit '' non support'' @ [0xE9]
                 @ lit ''. Types valides: text, textarea, image, number, wysiwyg, select, date''))"
  proof -
    have "lit ''. Types valides: '' @ join (lit '', '') (map fst SUPPORTED_TYPES)
        = lit ''. Types valides: text, textarea, image, number, wysiwyg, select, date''"
      unfolding tags_listing by (simp add: lit_simps)
    then show ?thesis by (simp add: parse_field_bad_type)
  qed
  from fails succeeds kind listing show ?thesis
    using parse_field_no_colon registry_keys by blast
qed

text \<open>
  C4. For a raw token \<open>n:t\<close> (\<open>n\<close> free of \<open>:\<close>, \<open>t\<close> a key of the registry),
  \<open>parse_field\<close> returns the field with name \<open>to_snake_case(n)\<close>, the type \<open>t\<close>
  unchanged and the label \<open>to_label(n)\<close>; \<open>parse_field("Prix:number")\<close> is
  \<open>Field(name="prix", field_type="number", label="Prix")\<close>.
\<close>

theorem parse_field_success:
  "(colon \<notin> set n \<and> t \<in> set (map fst SUPPORTED_TYPES) \<longrightarrow>
      parse_field U (n @ colon # t) =
        Inr \<lparr>name = to_snake_case U n, field_type = t, label = to_label U n\<rparr>)
   \<and> parse_field U (lit ''Prix:number'') =
        Inr \<lparr>name = lit ''prix'', field_type = lit ''number'', label = lit ''Prix''\<rparr>"
proof -
  have "parse_field U (lit ''Prix'' @ colon # lit ''number'') =
        Inr \<lparr>name = to_snake_case U (lit ''Prix''), field_type = lit ''number'',
             label = to_label U (lit ''Prix'')\<rparr>"
    by (rule parse_field_ok) (simp_all add: registry_keys lit_simps)
  moreover have "lit ''Prix'' @ colon # lit ''number'' = lit ''Prix:number''"
    by (simp add: lit_simps)
  ultimately show ?thesis
    using parse_field_ok by (simp add: to_snake_case_Prix to_label_Prix)
qed

text \<open>
  C5, as amended. Every field \<open>parse_field\<close> returns has a name over \<open>[a-z0-9_]\<close> that
  neither starts nor ends with an underscore and holds no two underscores in a row, and
  a type that is a key of the registry. The name may be empty.
\<close>

theorem parse_field_invariant:
  assumes "parse_field U raw = Inr f"
  shows "set (name f) \<subseteq> {c. is_ascii_lower c \<or> is_digit c \<or> c = underscore}
    \<and> \<not> (\<exists>t. name f = underscore # t)
    \<and> \<not> (\<exists>t. name f = t @ [underscore])
    \<and> \<not> (\<exists>xs ys. name f = xs @ [underscore, underscore] @ ys)
    \<and> field_type f \<in> set (map fst SUPPORTED_TYPES)"
proof -
  from assms parse_field_cases [of raw U] obtain n t
    where t: "t \<in> set (map fst SUPPORTED_TYPES)"
      and f: "f = \<lparr>name = to_snake_case U n, field_type = t, label = to_label U n\<rparr>"
    by auto
  have "set (to_snake_case U n) \<subseteq> {c. is_ascii_lower c \<or> is_digit c \<or> c = underscore}"
    using snake_chars [of U n] by (auto simp: is_alnum_def)
  with t f show ?thesis
    using snake_no_lead snake_no_trail snake_no_double by simp
qed


lemma eval_noseparator: "colon \<notin> set (lit ''noseparator'')"
  by (simp add: lit_simps)

lemma eval_currency:
  "colon \<notin> set (lit ''prix-ttc'') \<and> lit ''currency'' \<notin> set (map fst SUPPORTED_TYPES)
   \<and> lit ''number'' \<in> set (map fst SUPPORTED_TYPES)"
  by (simp add: registry_keys lit_simps)

lemma eval_prix_ttc:
  "to_snake_case ascii_only (lit ''prix-ttc'') = lit ''prix_ttc''
   \<and> to_label ascii_only (lit ''prix-ttc'') = lit ''Prix Ttc''"
  by code_simp

text \<open>The tokens \<open>noseparator\<close> and \<open>prix-ttc:currency\<close> of the specification.\<close>

theorem parse_field_fails_iff_witness:
  "colon \<notin> set (lit ''noseparator'')
   \<and> parse_field ascii_only (lit ''noseparator'') =
       Inl (BadParameter (lit ''Format invalide: noseparator. Utilisez '' @ [apostrophe]
              @ lit ''nom:type'' @ [apostrophe]))
   \<and> colon \<notin> set (lit ''prix-ttc'') \<and> lit ''currency'' \<notin> set (map fst SUPPORTED_TYPES)
   \<and> parse_field ascii_only (lit ''prix-ttc:currency'') =
       Inl (BadParameter (lit ''Type '' @ [apostrophe] @ lit ''currency'' @ [apostrophe]
              @ lit '' non support'' @ [0xE9]
              @ lit ''. Types valides: text, textarea, image, number, wysiwyg, select, date''))"
proof -
  note spec = parse_field_fails_iff [where U = ascii_only and raw = "lit ''noseparator''"
      and n = "lit ''prix-ttc''" and t = "lit ''currency''"]
  from spec eval_noseparator
  have "parse_field ascii_only (lit ''noseparator'') =
       Inl (BadParameter (lit ''Format invalide: '' @ lit ''noseparator'' @ lit ''. Utilisez ''
              @ [apostrophe] @ lit ''nom:type'' @ [apostrophe]))"
    by blast
  moreover from spec eval_currency
  have "parse_field ascii_only (lit ''prix-ttc'' @ colon # lit ''currency'') =
       Inl (BadParameter (lit ''Type '' @ [apostrophe] @ lit ''currency'' @ [apostrophe]
              @ lit '' non support'' @ [0xE9]
              @ lit ''. Types valides: text, textarea, image, number, wysiwyg, select, date''))"
    by blast
  ultimately show ?thesis
    using eval_noseparator eval_currency by (simp add: lit_simps)
qed

theorem parse_field_success_witness:
  "colon \<notin> set (lit ''prix-ttc'') \<and> lit ''number'' \<in> set (map fst SUPPORTED_TYPES)
   \<and> parse_field ascii_only (lit ''prix-ttc:number'') =
       Inr \<lparr>name = lit ''prix_ttc'', field_type = lit ''number'', label = lit ''Prix Ttc''\<rparr>"
proof -
  from parse_field_success [of "lit ''prix-ttc''" "lit ''number''" ascii_only] eval_currency
  have "parse_field ascii_only (lit ''prix-ttc'' @ colon # lit ''number'') =
       Inr \<lparr>name = to_snake_case ascii_only (lit ''prix-ttc''), field_type = lit ''number'',
            label = to_label ascii_only (lit ''prix-ttc'')\<rparr>"
    by blast
  then have "parse_field ascii_only (lit ''prix-ttc'' @ colon # lit ''number'') =
       Inr \<lparr>name = lit ''prix_ttc'', field_type = lit ''number'', label = lit ''Prix Ttc''\<rparr>"
    by (simp only: eval_prix_ttc)
  moreover have "lit ''prix-ttc'' @ colon # lit ''number'' = lit ''prix-ttc:number''"
    by (simp add: lit_simps)
  ultimately show ?thesis
    using eval_currency by simp
qed

text \<open>
  C5, as stated, asks for a non-empty name: the token \<open>:text\<close> is accepted with the
  empty name.
\<close>

theorem parse_field_empty_name:
  "parse_field ascii_only (lit '':text'') = Inr \<lparr>name = [], field_type = lit ''text'', label = []\<rparr>"
  by code_simp

theorem parse_field_invariant_witness:
  "parse_field ascii_only (lit ''prix-ttc:number'') =
       Inr \<lparr>name = lit ''prix_ttc'', field_type = lit ''number'', label = lit ''Prix Ttc''\<rparr>
   \<and> set (lit ''prix_ttc'') \<subseteq> {c. is_ascii_lower c \<or> is_digit c \<or> c = underscore}
   \<and> \<not> (\<exists>t. lit ''prix_ttc'' = underscore # t)
   \<and> \<not> (\<exists>t. lit ''prix_ttc'' = t @ [underscore])
   \<and> \<not> (\<exists>xs ys. lit ''prix_ttc'' = xs @ [underscore, underscore] @ ys)
   \<and> lit ''number'' \<in> set (map fst SUPPORTED_TYPES)"
proof -
  have run: "parse_field ascii_only (lit ''prix-ttc:number'') =
       Inr \<lparr>name = lit ''prix_ttc'', field_type = lit ''number'', label = lit ''Prix Ttc''\<rparr>"
    by code_simp
  from parse_field_invariant [OF run] run show ?thesis by simp
qed

section \<open>Properties of the key generators\<close>

text \<open>The model of MD5 on two entries of the test suite of RFC 1321.\<close>

lemma md5_test_suite:
  "hexdigest (md5 []) = lit ''d41d8cd98f00b204e9800998ecf8427e''
   \<and> hexdigest (md5 (map of_char ''abc'')) = lit ''900150983cd24fb0d6963f7d28e17f72''"
  by code_simp

text \<open>A message of 80 bytes, which takes two blocks.\<close>

lemma md5_two_blocks:
  "hexdigest (md5 (map of_char
      ''12345678901234567890123456789012345678901234567890123456789012345678901234567890''))
     = lit ''57edf4a22be3c955ac49da2e2107b67a''"
  by code_simp

lemma utf8_None: "utf8 c = None \<longleftrightarrow> \<not> is_scalar c"
  by (auto simp: utf8_def is_scalar_def)

lemma encode_scalar: "list_all is_scalar s \<Longrightarrow> \<exists>bs. encode s = Inr bs"
proof (induction s)
  case Nil
  show ?case by simp
next
  case (Cons c s)
  then obtain bs where "encode s = Inr bs" by auto
  moreover from Cons.prems obtain b where "utf8 c = Some b"
    using utf8_None [of c] by auto
  ultimately show ?case by simp
qed

lemma encode_error: "encode s = Inl e \<Longrightarrow> e = UnicodeEncodeError \<and> \<not> list_all is_scalar s"
proof (induction s)
  case Nil
  then show ?case by simp
next
  case (Cons c s)
  then show ?case
    using utf8_None [of c] by (auto split: option.splits sum.splits)
qed

lemma length_le_bytes: "length (le_bytes k w) = k"
  by (simp add: le_bytes_def)

lemma length_md5: "length (md5 msg) = 16"
  by (simp add: md5_def length_le_bytes split: prod.splits)

lemma hex_digit_range: "n < 16 \<Longrightarrow> is_digit (hex_digit n) \<or> (97 \<le> hex_digit n \<and> hex_digit n \<le> 102)"
  by (auto simp: hex_digit_def is_digit_def)

lemma hex_byte_chars: "set (hex_byte b) \<subseteq> {c. is_digit c \<or> (97 \<le> c \<and> c \<le> 102)}"
proof -
  have "unat b < 2 ^ LENGTH(8)" by (rule unsigned_less)
  then have "unat b < 256" by simp
  then have "unat b div 16 < 16" and "unat b mod 16 < 16" by auto
  then show ?thesis using hex_digit_range by (simp add: hex_byte_def)
qed

lemma hexdigest_chars: "set (hexdigest bs) \<subseteq> {c. is_digit c \<or> (97 \<le> c \<and> c \<le> 102)}"
  using hex_byte_chars by (auto simp: hexdigest_def)

lemma length_hexdigest: "length (hexdigest bs) = 2 * length bs"
  by (induction bs) (simp_all add: hexdigest_def hex_byte_def)

lemma hash_suffix_shape:
  "length (take 8 (hexdigest (md5 bs))) = 8
   \<and> set (take 8 (hexdigest (md5 bs))) \<subseteq> {c. is_digit c \<or> (97 \<le> c \<and> c \<le> 102)}"
proof -
  have "set (take 8 (hexdigest (md5 bs))) \<subseteq> set (hexdigest (md5 bs))"
    by (rule set_take_subset)
  with hexdigest_chars [of "md5 bs"] show ?thesis
    by (auto simp: length_hexdigest length_md5)
qed

text \<open>
  C2, as amended. For a module identity and a field identity free of surrogate code
  points, \<open>generate_field_key\<close> returns \<open>field_\<close> followed by the first 8 characters of
  the hexadecimal MD5 digest of the UTF-8 bytes of the two identities joined by \<open>_\<close>,
  and these are 8 characters from \<open>[0-9a-f]\<close>; \<open>generate_group_key\<close> likewise returns
  \<open>group_\<close> followed by 8 such characters of the digest of the module identity alone.
\<close>

theorem key_shape:
  "(list_all is_scalar module_name \<and> list_all is_scalar field_name \<longrightarrow>
      (\<exists>bs h. encode (module_name @ [underscore] @ field_name) = Inr bs
         \<and> h = take 8 (hexdigest (md5 bs))
         \<and> generate_field_key module_name field_name = Inr (lit ''field_'' @ h)
         \<and> length h = 8 \<and> set h \<subseteq> {c. is_digit c \<or> (97 \<le> c \<and> c \<le> 102)}))
   \<and> (list_all is_scalar module_name \<longrightarrow>
      (\<exists>bs h. encode module_name = Inr bs
         \<and> h = take 8 (hexdigest (md5 bs))
         \<and> generate_group_key module_name = Inr (lit ''group_'' @ h)
         \<and> length h = 8 \<and> set h \<subseteq> {c. is_digit c \<or> (97 \<le> c \<and> c \<le> 102)}))"
proof (intro conjI impI)
  assume "list_all is_scalar module_name \<and> list_all is_scalar field_name"
  then have "list_all is_scalar (module_name @ [underscore] @ field_name)"
    by (simp add: is_scalar_def)
  then obtain bs where "encode (module_name @ [underscore] @ field_name) = Inr bs"
    using encode_scalar by blast
  then show "\<exists>bs h. encode (module_name @ [underscore] @ field_name) = Inr bs
         \<and> h = take 8 (hexdigest (md5 bs))
         \<and> generate_field_key module_name field_name = Inr (lit ''field_'' @ h)
         \<and> length h = 8 \<and> set h \<subseteq> {c. is_digit c \<or> (97 \<le> c \<and> c \<le> 102)}"
    using hash_suffix_shape [of bs] by (simp add: generate_field_key_def)
next
  assume "list_all is_scalar module_name"
  then obtain bs where "encode module_name = Inr bs"
    using encode_scalar by blast
  then show "\<exists>bs h. encode module_name = Inr bs
         \<and> h = take 8 (hexdigest (md5 bs))
         \<and> generate_group_key module_name = Inr (lit ''group_'' @ h)
         \<and> length h = 8 \<and> set h \<subseteq> {c. is_digit c \<or> (97 \<le> c \<and> c \<le> 102)}"
    using hash_suffix_shape [of bs] by (simp add: generate_group_key_def)
qed

text \<open>
  C2, as stated, speaks of every identity string. A string may hold a lone surrogate (an
  undecodable byte of a command-line argument arrives as one), and there the strict
  encoder raises before anything is hashed: no key is returned.
\<close>

theorem key_of_surrogate:
  "generate_field_key [0xDCFF] (lit ''titre'') = Inl UnicodeEncodeError
   \<and> generate_group_key [0xDCFF] = Inl UnicodeEncodeError"
  by (simp add: generate_field_key_def generate_group_key_def utf8_def)

lemma eval_scalar:
  "list_all is_scalar (lit ''Produit'') \<and> list_all is_scalar (lit ''titre'')"
  by (simp add: lit_simps is_scalar_def)

lemma eval_keys_Produit:
  "generate_field_key (lit ''Produit'') (lit ''titre'') = Inr (lit ''field_b423be5d'')
   \<and> generate_group_key (lit ''Produit'') = Inr (lit ''group_e30e2cb9'')"
  by code_simp

theorem key_shape_witness:
  "list_all is_scalar (lit ''Produit'') \<and> list_all is_scalar (lit ''titre'')
   \<and> generate_field_key (lit ''Produit'') (lit ''titre'') = Inr (lit ''field_b423be5d'')
   \<and> generate_group_key (lit ''Produit'') = Inr (lit ''group_e30e2cb9'')
   \<and> (\<exists>h. generate_field_key (lit ''Produit'') (lit ''titre'') = Inr (lit ''field_'' @ h)
         \<and> length h = 8 \<and> set h \<subseteq> {c. is_digit c \<or> (97 \<le> c \<and> c \<le> 102)})
   \<and> (\<exists>h. generate_group_key (lit ''Produit'') = Inr (lit ''group_'' @ h)
         \<and> length h = 8 \<and> set h \<subseteq> {c. is_digit c \<or> (97 \<le> c \<and> c \<le> 102)})"
proof -
  from key_shape [of "lit ''Produit''" "lit ''titre''"] eval_scalar
  have "(\<exists>h. generate_field_key (lit ''Produit'') (lit ''titre'') = Inr (lit ''field_'' @ h)
         \<and> length h = 8 \<and> set h \<subseteq> {c. is_digit c \<or> (97 \<le> c \<and> c \<le> 102)})
   \<and> (\<exists>h. generate_group_key (lit ''Produit'') = Inr (lit ''group_'' @ h)
         \<and> length h = 8 \<and> set h \<subseteq> {c. is_digit c \<or> (97 \<le> c \<and> c \<le> 102)})"
    by blast
  with eval_scalar eval_keys_Produit show ?thesis by blast
qed

text \<open>
  C10. The field key hashes the module identity and the field identity joined by one
  \<open>_\<close>, and the join is not injective: the distinct pairs \<open>("a_b", "c")\<close> and
  \<open>("a", "b_c")\<close> give the same string \<open>a_b_c\<close> before any hashing, hence the same key,
  \<open>field_8d28cddc\<close>. In general an underscore may move from one identity to the other.
\<close>

theorem separator_collision:
  "(lit ''a_b'', lit ''c'') \<noteq> (lit ''a'', lit ''b_c'')
   \<and> lit ''a_b'' @ [underscore] @ lit ''c'' = lit ''a'' @ [underscore] @ lit ''b_c''
   \<and> generate_field_key (lit ''a_b'') (lit ''c'') = generate_field_key (lit ''a'') (lit ''b_c'')
   \<and> generate_field_key (lit ''a_b'') (lit ''c'') = Inr (lit ''field_8d28cddc'')
   \<and> generate_field_key (module_name @ underscore # x) field_name
       = generate_field_key module_name (x @ underscore # field_name)"
proof -
  have same: "lit ''a_b'' @ [underscore] @ lit ''c'' = lit ''a'' @ [underscore] @ lit ''b_c''"
    by (simp add: lit_simps)
  then have "generate_field_key (lit ''a_b'') (lit ''c'')
      = generate_field_key (lit ''a'') (lit ''b_c'')"
    by (simp add: generate_field_key_def)
  moreover have "(lit ''a_b'', lit ''c'') \<noteq> (lit ''a'', lit ''b_c'')"
    by (simp add: lit_simps)
  moreover have "generate_field_key (lit ''a_b'') (lit ''c'') = Inr (lit ''field_8d28cddc'')"
    by code_simp
  moreover have "generate_field_key (module_name @ underscore # x) field_name
       = generate_field_key module_name (x @ underscore # field_name)"
    by (simp add: generate_field_key_def)
  ultimately show ?thesis using same by blast
qed


section \<open>Properties of the schema builder\<close>

lemma update_fresh: "k \<notin> fst ` set al \<Longrightarrow> AList.update k v al = al @ [(k, v)]"
  by (induction al) auto

lemma foldl_update_distinct:
  "distinct (map fst (acc @ items)) \<Longrightarrow>
   foldl (\<lambda>d (k, v). AList.update k v d) acc items = acc @ items"
proof (induction items arbitrary: acc)
  case Nil
  show ?case by simp
next
  case (Cons p items)
  obtain k v where p: "p = (k, v)" by (cases p)
  from Cons.prems p have fresh: "k \<notin> fst ` set acc" by auto
  from Cons.prems p have "distinct (map fst ((acc @ [(k, v)]) @ items))" by auto
  then have "foldl (\<lambda>d (k, v). AList.update k v d) (acc @ [(k, v)]) items
      = (acc @ [(k, v)]) @ items"
    by (rule Cons.IH)
  with fresh p show ?case by (simp add: update_fresh)
qed

lemma dict_of_distinct: "distinct (map fst items) \<Longrightarrow> dict_of items = items"
  using foldl_update_distinct [of "[]" items] by (simp add: dict_of_def)

lemma delete_type_label:
  "AList.delete (lit ''label'') (AList.delete (lit ''type'') cfg)
     = filter (\<lambda>(k, v). k \<noteq> lit ''type'' \<and> k \<noteq> lit ''label'') cfg"
  by (induction cfg) (auto simp: AList.delete_eq)

lemma collect_all:
  assumes "\<forall>x \<in> set xs. \<exists>y. f x = Inr y"
  shows "\<exists>ys. collect f xs = Inr ys \<and> list_all2 (\<lambda>x y. f x = Inr y) xs ys"
  using assms
proof (induction xs)
  case Nil
  show ?case by simp
next
  case (Cons x xs)
  then obtain y ys where "f x = Inr y" and "collect f xs = Inr ys"
    and "list_all2 (\<lambda>x y. f x = Inr y) xs ys"
    by auto
  then show ?case by simp
qed

lemma registry_cases:
  assumes "map_of SUPPORTED_TYPES t = Some cfg"
  shows "(t, cfg) \<in> set SUPPORTED_TYPES"
  using assms by (rule map_of_SomeD)

lemma registry_entry:
  assumes "t \<in> set (map fst SUPPORTED_TYPES)"
  shows "\<exists>cfg ty. map_of SUPPORTED_TYPES t = Some cfg \<and> map_of cfg (lit ''type'') = Some ty
     \<and> distinct (map fst cfg)
     \<and> set (map fst cfg) \<inter> set [lit ''key'', lit ''name'', lit ''instructions'', lit ''required'',
           lit ''conditional_logic'', lit ''wrapper''] = {}"
proof -
  from assms have "t = lit ''text'' \<or> t = lit ''textarea'' \<or> t = lit ''image'' \<or> t = lit ''number''
      \<or> t = lit ''wysiwyg'' \<or> t = lit ''select'' \<or> t = lit ''date''"
    by (simp add: registry_keys)
  then show ?thesis
    by (elim disjE) (simp_all add: SUPPORTED_TYPES_def lit_simps)
qed


lemma extras_keys:
  "set (map fst (filter (\<lambda>(k, v). k \<noteq> a \<and> k \<noteq> b) cfg)) = set (map fst cfg) - {a, b}"
  by (induction cfg) auto

lemma build_acf_field_ok:
  assumes t: "field_type field \<in> set (map fst SUPPORTED_TYPES)"
    and k: "generate_field_key module_name (name field) = Inr key"
  shows "\<exists>cfg ty. map_of SUPPORTED_TYPES (field_type field) = Some cfg
      \<and> map_of cfg (lit ''type'') = Some ty
      \<and> build_acf_field field module_name order =
          Inr ([(lit ''key'', PStr key),
                (lit ''label'', PStr (label field)),
                (lit ''name'', PStr (name field)),
                (lit ''type'', ty),
                (lit ''instructions'', PStr []),
                (lit ''required'', PInt 0),
                (lit ''conditional_logic'', PInt 0),
                (lit ''wrapper'',
                   PDict [(lit ''width'', PStr []), (lit ''class'', PStr []), (lit ''id'', PStr [])])]
               @ filter (\<lambda>(k, v). k \<noteq> lit ''type'' \<and> k \<noteq> lit ''label'') cfg)"
proof -
  from registry_entry [OF t] obtain cfg ty
    where cfg: "map_of SUPPORTED_TYPES (field_type field) = Some cfg"
      and ty: "map_of cfg (lit ''type'') = Some ty"
      and dist: "distinct (map fst cfg)"
      and disj: "set (map fst cfg) \<inter> set [lit ''key'', lit ''name'', lit ''instructions'',
           lit ''required'', lit ''conditional_logic'', lit ''wrapper''] = {}"
    by blast
  let ?extras = "filter (\<lambda>(k, v). k \<noteq> lit ''type'' \<and> k \<noteq> lit ''label'') cfg"
  let ?fixed = "[(lit ''key'', PStr key),
                (lit ''label'', PStr (label field)),
                (lit ''name'', PStr (name field)),
                (lit ''type'', ty),
                (lit ''instructions'', PStr []),
                (lit ''required'', PInt 0),
                (lit ''conditional_logic'', PInt 0),
                (lit ''wrapper'',
                   PDict [(lit ''width'', PStr []), (lit ''class'', PStr []), (lit ''id'', PStr [])])]"
  have wrapper: "dict_of [(lit ''width'', PStr []), (lit ''class'', PStr []), (lit ''id'', PStr [])]
      = [(lit ''width'', PStr []), (lit ''class'', PStr []), (lit ''id'', PStr [])]"
    by (rule dict_of_distinct) (simp add: lit_simps)
  have d1: "distinct (map fst ?fixed)" by (simp add: lit_simps)
  have d2: "distinct (map fst ?extras)" using dist by (simp add: distinct_map_filter)
  have d3: "set (map fst ?fixed) \<inter> set (map fst ?extras) = {}"
    using disj unfolding extras_keys by auto
  from d1 d2 d3 have "distinct (map fst (?fixed @ ?extras))"
    by (simp only: map_append distinct_append)
  then have "dict_of (?fixed @ ?extras) = ?fixed @ ?extras"
    by (rule dict_of_distinct)
  then have "build_acf_field field module_name order = Inr (?fixed @ ?extras)"
    by (simp add: build_acf_field_def cfg ty k delete_type_label wrapper)
  with cfg ty show ?thesis by blast
qed

lemma build_acf_json_ok:
  assumes fs: "collect (\<lambda>(i, field). build_acf_field field module_name i) (enumerate 0 flds)
      = Inr acf_fields"
    and k: "generate_group_key module_name = Inr key"
  shows "build_acf_json now module_name slug flds =
      Inr [(lit ''key'', PStr key),
           (lit ''title'', PStr (lit ''Champs '' @ module_name)),
           (lit ''fields'', PList (map PDict acf_fields)),
           (lit ''location'',
              PList [PList [PDict [(lit ''param'', PStr (lit ''post_type'')),
                                   (lit ''operator'', PStr (lit ''=='')),
                                   (lit ''value'', PStr slug)]]]),
           (lit ''menu_order'', PInt 0),
           (lit ''position'', PStr (lit ''normal'')),
           (lit ''style'', PStr (lit ''default'')),
           (lit ''label_placement'', PStr (lit ''top'')),
           (lit ''instruction_placement'', PStr (lit ''label'')),
           (lit ''hide_on_screen'', PStr []),
           (lit ''active'', PBool True),
           (lit ''description'', PStr (lit ''Groupe de champs pour le module '' @ module_name)),
           (lit ''show_in_rest'', PInt 1),
           (lit ''modified'', PInt now)]"
proof -
  have loc: "dict_of [(lit ''param'', PStr (lit ''post_type'')),
                      (lit ''operator'', PStr (lit ''=='')),
                      (lit ''value'', PStr slug)]
      = [(lit ''param'', PStr (lit ''post_type'')),
         (lit ''operator'', PStr (lit ''=='')),
         (lit ''value'', PStr slug)]"
    by (rule dict_of_distinct) (simp add: lit_simps)
  have top: "dict_of items = items"
    if "map fst items = [lit ''key'', lit ''title'', lit ''fields'', lit ''location'',
          lit ''menu_order'', lit ''position'', lit ''style'', lit ''label_placement'',
          lit ''instruction_placement'', lit ''hide_on_screen'', lit ''active'',
          lit ''description'', lit ''show_in_rest'', lit ''modified'']" for items
    by (rule dict_of_distinct) (simp add: that lit_simps)
  show ?thesis
    unfolding build_acf_json_def fs k loc by (simp add: top)
qed


lemma generate_field_key_ok:
  assumes "list_all is_scalar module_name" and "list_all is_scalar field_name"
  shows "\<exists>key. generate_field_key module_name field_name = Inr key"
proof -
  from assms have "list_all is_scalar (module_name @ [underscore] @ field_name)"
    by (simp add: is_scalar_def)
  then obtain bs where "encode (module_name @ [underscore] @ field_name) = Inr bs"
    using encode_scalar by blast
  then show ?thesis by (simp add: generate_field_key_def)
qed

lemma generate_group_key_ok:
  assumes "list_all is_scalar module_name"
  shows "\<exists>key. generate_group_key module_name = Inr key"
proof -
  from assms obtain bs where "encode module_name = Inr bs"
    using encode_scalar by blast
  then show ?thesis by (simp add: generate_group_key_def)
qed

lemma entries_ok:
  assumes m: "list_all is_scalar module_name"
    and fs: "list_all (\<lambda>field. field_type field \<in> set (map fst SUPPORTED_TYPES)
               \<and> list_all is_scalar (name field)) flds"
  shows "\<exists>entries.
      collect (\<lambda>(i, field). build_acf_field field module_name i) (enumerate 0 flds) = Inr entries
    \<and> list_all2
        (\<lambda>field entry. \<exists>key cfg ty.
           generate_field_key module_name (name field) = Inr key
         \<and> map_of SUPPORTED_TYPES (field_type field) = Some cfg
         \<and> map_of cfg (lit ''type'') = Some ty
         \<and> entry =
             [(lit ''key'', PStr key),
              (lit ''label'', PStr (label field)),
              (lit ''name'', PStr (name field)),
              (lit ''type'', ty),
              (lit ''instructions'', PStr []),
              (lit ''required'', PInt 0),
              (lit ''conditional_logic'', PInt 0),
              (lit ''wrapper'',
                 PDict [(lit ''width'', PStr []), (lit ''class'', PStr []),
                        (lit ''id'', PStr [])])]
             @ filter (\<lambda>(k, v). k \<noteq> lit ''type'' \<and> k \<noteq> lit ''label'') cfg)
        flds entries"
    (is "\<exists>entries. _ \<and> list_all2 ?is_entry flds entries")
proof -
  let ?f = "\<lambda>(i, field). build_acf_field field module_name i"
  have step: "\<exists>entry. ?f x = Inr entry \<and> ?is_entry (snd x) entry"
    if "x \<in> set (enumerate 0 flds)" for x
  proof -
    obtain i field where x: "x = (i, field)" by (cases x)
    with that have mem: "field \<in> set flds" by (auto simp: in_set_enumerate_eq)
    with fs have t: "field_type field \<in> set (map fst SUPPORTED_TYPES)"
      and n: "list_all is_scalar (name field)"
      by (auto simp: list_all_iff)
    from m n obtain key where "generate_field_key module_name (name field) = Inr key"
      using generate_field_key_ok by blast
    with t show ?thesis
      using build_acf_field_ok [of field "module_name" key i] x by auto
  qed
  then have "\<forall>x \<in> set (enumerate 0 flds). \<exists>y. ?f x = Inr y" by blast
  then obtain entries where c: "collect ?f (enumerate 0 flds) = Inr entries"
    and l: "list_all2 (\<lambda>x y. ?f x = Inr y) (enumerate 0 flds) entries"
    using collect_all by blast
  from l have "list_all2 (\<lambda>x y. ?is_entry (snd x) y) (enumerate 0 flds) entries"
  proof (rule list.rel_mono_strong)
    fix x y
    assume "x \<in> set (enumerate 0 flds)" and "?f x = Inr y"
    with step [of x] show "?is_entry (snd x) y" by auto
  qed
  then have "list_all2 ?is_entry (map snd (enumerate 0 flds)) entries"
    by (simp only: list_all2_map1)
  then have "list_all2 ?is_entry flds entries"
    by (simp only: map_snd_enumerate)
  with c show ?thesis by blast
qed

text \<open>
  C8, as amended. For every module name free of surrogate code points, every slug and
  every list of fields whose types are keys of the registry and whose names are free of
  surrogate code points (every field \<open>parse_field\<close> returns is such a field),
  \<open>build_acf_json\<close> returns a document whose top-level keys are exactly \<open>key\<close>,
  \<open>title\<close>, \<open>fields\<close>, \<open>location\<close>, \<open>menu_order\<close>, \<open>position\<close>, \<open>style\<close>,
  \<open>label_placement\<close>, \<open>instruction_placement\<close>, \<open>hide_on_screen\<close>, \<open>active\<close>,
  \<open>description\<close>, \<open>show_in_rest\<close>, \<open>modified\<close>, in this order; whose location is the
  one rule \<open>post_type == slug\<close>; and whose entry for each field carries exactly \<open>key\<close>,
  \<open>label\<close>, \<open>name\<close>, \<open>type\<close>, \<open>instructions\<close>, \<open>required\<close>, \<open>conditional_logic\<close>,
  \<open>wrapper\<close>, followed by the attributes of the registry entry of the field's type other
  than \<open>type\<close> and \<open>label\<close>. The entry's \<open>type\<close> is the registry's, its \<open>label\<close> is the
  field's own.
\<close>

theorem build_acf_json_shape:
  assumes "list_all is_scalar module_name"
    and "list_all (\<lambda>field. field_type field \<in> set (map fst SUPPORTED_TYPES)
           \<and> list_all is_scalar (name field)) flds"
  shows "\<exists>doc key entries.
      build_acf_json now module_name slug flds = Inr doc
    \<and> generate_group_key module_name = Inr key
    \<and> doc =
        [(lit ''key'', PStr key),
         (lit ''title'', PStr (lit ''Champs '' @ module_name)),
         (lit ''fields'', PList (map PDict entries)),
         (lit ''location'',
            PList [PList [PDict [(lit ''param'', PStr (lit ''post_type'')),
                                 (lit ''operator'', PStr (lit ''=='')),
                                 (lit ''value'', PStr slug)]]]),
         (lit ''menu_order'', PInt 0),
         (lit ''position'', PStr (lit ''normal'')),
         (lit ''style'', PStr (lit ''default'')),
         (lit ''label_placement'', PStr (lit ''top'')),
         (lit ''instruction_placement'', PStr (lit ''label'')),
         (lit ''hide_on_screen'', PStr []),
         (lit ''active'', PBool True),
         (lit ''description'', PStr (lit ''Groupe de champs pour le module '' @ module_name)),
         (lit ''show_in_rest'', PInt 1),
         (lit ''modified'', PInt now)]
    \<and> map fst doc =
        [lit ''key'', lit ''title'', lit ''fields'', lit ''location'', lit ''menu_order'',
         lit ''position'', lit ''style'', lit ''label_placement'', lit ''instruction_placement'',
         lit ''hide_on_screen'', lit ''active'', lit ''description'', lit ''show_in_rest'',
         lit ''modified'']
    \<and> list_all2
        (\<lambda>field entry. \<exists>key cfg ty.
           generate_field_key module_name (name field) = Inr key
         \<and> map_of SUPPORTED_TYPES (field_type field) = Some cfg
         \<and> map_of cfg (lit ''type'') = Some ty
         \<and> entry =
             [(lit ''key'', PStr key),
              (lit ''label'', PStr (label field)),
              (lit ''name'', PStr (name field)),
              (lit ''type'', ty),
              (lit ''instructions'', PStr []),
              (lit ''required'', PInt 0),
              (lit ''conditional_logic'', PInt 0),
              (lit ''wrapper'',
                 PDict [(lit ''width'', PStr []), (lit ''class'', PStr []),
                        (lit ''id'', PStr [])])]
             @ filter (\<lambda>(k, v). k \<noteq> lit ''type'' \<and> k \<noteq> lit ''label'') cfg)
        flds entries"
proof -
  from assms obtain entries
    where c: "collect (\<lambda>(i, field). build_acf_field field module_name i) (enumerate 0 flds)
        = Inr entries"
      and l: "list_all2
        (\<lambda>field entry. \<exists>key cfg ty.
           generate_field_key module_name (name field) = Inr key
         \<and> map_of SUPPORTED_TYPES (field_type field) = Some cfg
         \<and> map_of cfg (lit ''type'') = Some ty
         \<and> entry =
             [(lit ''key'', PStr key),
              (lit ''label'', PStr (label field)),
              (lit ''name'', PStr (name field)),
              (lit ''type'', ty),
              (lit ''instructions'', PStr []),
              (lit ''required'', PInt 0),
              (lit ''conditional_logic'', PInt 0),
              (lit ''wrapper'',
                 PDict [(lit ''width'', PStr []), (lit ''class'', PStr []),
                        (lit ''id'', PStr [])])]
             @ filter (\<lambda>(k, v). k \<noteq> lit ''type'' \<and> k \<noteq> lit ''label'') cfg)
        flds entries"
    using entries_ok by blast
  from assms(1) obtain key where k: "generate_group_key module_name = Inr key"
    using generate_group_key_ok by blast
  have keys: "map fst doc =
        [lit ''key'', lit ''title'', lit ''fields'', lit ''location'', lit ''menu_order'',
         lit ''position'', lit ''style'', lit ''label_placement'', lit ''instruction_placement'',
         lit ''hide_on_screen'', lit ''active'', lit ''description'', lit ''show_in_rest'',
         lit ''modified'']"
    if "build_acf_json now module_name slug flds = Inr doc" for doc
    using that unfolding build_acf_json_ok [OF c k] by auto
  from build_acf_json_ok [OF c k, of now slug] keys k l show ?thesis by blast
qed

lemma eval_build_Produit:
  "build_acf_json 1700000000 (lit ''Produit'') (lit ''produit'')
       [\<lparr>name = lit ''titre'', field_type = lit ''text'', label = lit ''Titre''\<rparr>,
        \<lparr>name = lit ''sortie'', field_type = lit ''date'', label = lit ''Sortie''\<rparr>]
   = Inr
       [(lit ''key'', PStr (lit ''group_e30e2cb9'')),
        (lit ''title'', PStr (lit ''Champs Produit'')),
        (lit ''fields'',
           PList
            [PDict
              [(lit ''key'', PStr (lit ''field_b423be5d'')),
               (lit ''label'', PStr (lit ''Titre'')),
               (lit ''name'', PStr (lit ''titre'')),
               (lit ''type'', PStr (lit ''text'')),
               (lit ''instructions'', PStr []),
               (lit ''required'', PInt 0),
               (lit ''conditional_logic'', PInt 0),
               (lit ''wrapper'',
                  PDict [(lit ''width'', PStr []), (lit ''class'', PStr []),
                         (lit ''id'', PStr [])])],
             PDict
              [(lit ''key'', PStr (lit ''field_ef2ce2e6'')),
               (lit ''label'', PStr (lit ''Sortie'')),
               (lit ''name'', PStr (lit ''sortie'')),
               (lit ''type'', PStr (lit ''date_picker'')),
               (lit ''instructions'', PStr []),
               (lit ''required'', PInt 0),
               (lit ''conditional_logic'', PInt 0),
               (lit ''wrapper'',
                  PDict [(lit ''width'', PStr []), (lit ''class'', PStr []),
                         (lit ''id'', PStr [])]),
               (lit ''display_format'', PStr (lit ''d/m/Y'')),
               (lit ''return_format'', PStr (lit ''Y-m-d''))]]),
        (lit ''location'',
           PList [PList [PDict [(lit ''param'', PStr (lit ''post_type'')),
                                (lit ''operator'', PStr (lit ''=='')),
                                (lit ''value'', PStr (lit ''produit''))]]]),
        (lit ''menu_order'', PInt 0),
        (lit ''position'', PStr (lit ''normal'')),
        (lit ''style'', PStr (lit ''default'')),
        (lit ''label_placement'', PStr (lit ''top'')),
        (lit ''instruction_placement'', PStr (lit ''label'')),
        (lit ''hide_on_screen'', PStr []),
        (lit ''active'', PBool True),
        (lit ''description'', PStr (lit ''Groupe de champs pour le module Produit'')),
        (lit ''show_in_rest'', PInt 1),
        (lit ''modified'', PInt 1700000000)]"
  by code_simp

lemma eval_build_hyps:
  "list_all is_scalar (lit ''Produit'')
   \<and> list_all (\<lambda>field. field_type field \<in> set (map fst SUPPORTED_TYPES)
         \<and> list_all is_scalar (name field))
       [\<lparr>name = lit ''titre'', field_type = lit ''text'', label = lit ''Titre''\<rparr>,
        \<lparr>name = lit ''sortie'', field_type = lit ''date'', label = lit ''Sortie''\<rparr>]"
  by (simp add: registry_keys lit_simps is_scalar_def)

text \<open>The module \<open>Produit\<close> with a text field and a date field, built at clock reading
  \<open>1700000000\<close>.\<close>

theorem build_acf_json_shape_witness:
  "list_all is_scalar (lit ''Produit'')
   \<and> list_all (\<lambda>field. field_type field \<in> set (map fst SUPPORTED_TYPES)
         \<and> list_all is_scalar (name field))
       [\<lparr>name = lit ''titre'', field_type = lit ''text'', label = lit ''Titre''\<rparr>,
        \<lparr>name = lit ''sortie'', field_type = lit ''date'', label = lit ''Sortie''\<rparr>]
   \<and> build_acf_json 1700000000 (lit ''Produit'') (lit ''produit'')
       [\<lparr>name = lit ''titre'', field_type = lit ''text'', label = lit ''Titre''\<rparr>,
        \<lparr>name = lit ''sortie'', field_type = lit ''date'', label = lit ''Sortie''\<rparr>]
     = Inr
       [(lit ''key'', PStr (lit ''group_e30e2cb9'')),
        (lit ''title'', PStr (lit ''Champs Produit'')),
        (lit ''fields'',
           PList
            [PDict
              [(lit ''key'', PStr (lit ''field_b423be5d'')),
               (lit ''label'', PStr (lit ''Titre'')),
               (lit ''name'', PStr (lit ''titre'')),
               (lit ''type'', PStr (lit ''text'')),
               (lit ''instructions'', PStr []),
               (lit ''required'', PInt 0),
               (lit ''conditional_logic'', PInt 0),
               (lit ''wrapper'',
                  PDict [(lit ''width'', PStr []), (lit ''class'', PStr []),
                         (lit ''id'', PStr [])])],
             PDict
              [(lit ''key'', PStr (lit ''field_ef2ce2e6'')),
               (lit ''label'', PStr (lit ''Sortie'')),
               (lit ''name'', PStr (lit ''sortie'')),
               (lit ''type'', PStr (lit ''date_picker'')),
               (lit ''instructions'', PStr []),
               (lit ''required'', PInt 0),
               (lit ''conditional_logic'', PInt 0),
               (lit ''wrapper'',
                  PDict [(lit ''width'', PStr []), (lit ''class'', PStr []),
                         (lit ''id'', PStr [])]),
               (lit ''display_format'', PStr (lit ''d/m/Y'')),
               (lit ''return_format'', PStr (lit ''Y-m-d''))]]),
        (lit ''location'',
           PList [PList [PDict [(lit ''param'', PStr (lit ''post_type'')),
                                (lit ''operator'', PStr (lit ''=='')),
                                (lit ''value'', PStr (lit ''produit''))]]]),
        (lit ''menu_order'', PInt 0),
        (lit ''position'', PStr (lit ''normal'')),
        (lit ''style'', PStr (lit ''default'')),
        (lit ''label_placement'', PStr (lit ''top'')),
        (lit ''instruction_placement'', PStr (lit ''label'')),
        (lit ''hide_on_screen'', PStr []),
        (lit ''active'', PBool True),
        (lit ''description'', PStr (lit ''Groupe de champs pour le module Produit'')),
        (lit ''show_in_rest'', PInt 1),
        (lit ''modified'', PInt 1700000000)]
   \<and> (\<exists>doc. build_acf_json 1700000000 (lit ''Produit'') (lit ''produit'')
       [\<lparr>name = lit ''titre'', field_type = lit ''text'', label = lit ''Titre''\<rparr>,
        \<lparr>name = lit ''sortie'', field_type = lit ''date'', label = lit ''Sortie''\<rparr>]
         = Inr doc
       \<and> map fst doc =
          [lit ''key'', lit ''title'', lit ''fields'', lit ''location'', lit ''menu_order'',
           lit ''position'', lit ''style'', lit ''label_placement'',
           lit ''instruction_placement'', lit ''hide_on_screen'', lit ''active'',
           lit ''description'', lit ''show_in_rest'', lit ''modified''])"
proof -
  from eval_build_hyps
  have h1: "list_all is_scalar (lit ''Produit'')"
    and h2: "list_all (\<lambda>field. field_type field \<in> set (map fst SUPPORTED_TYPES)
         \<and> list_all is_scalar (name field))
       [\<lparr>name = lit ''titre'', field_type = lit ''text'', label = lit ''Titre''\<rparr>,
        \<lparr>name = lit ''sortie'', field_type = lit ''date'', label = lit ''Sortie''\<rparr>]"
    by blast+
  from build_acf_json_shape [OF h1 h2, of 1700000000 "lit ''produit''"]
  have "\<exists>doc. build_acf_json 1700000000 (lit ''Produit'') (lit ''produit'')
       [\<lparr>name = lit ''titre'', field_type = lit ''text'', label = lit ''Titre''\<rparr>,
        \<lparr>name = lit ''sortie'', field_type = lit ''date'', label = lit ''Sortie''\<rparr>]
         = Inr doc
       \<and> map fst doc =
          [lit ''key'', lit ''title'', lit ''fields'', lit ''location'', lit ''menu_order'',
           lit ''position'', lit ''style'', lit ''label_placement'',
           lit ''instruction_placement'', lit ''hide_on_screen'', lit ''active'',
           lit ''description'', lit ''show_in_rest'', lit ''modified'']"
    by (elim exE conjE) (rule exI, erule conjI)
  with eval_build_hyps eval_build_Produit show ?thesis by (intro conjI) (blast+)
qed

lemma encode_surrogate: "encode (s @ [0xDCFF] @ t) = Inl UnicodeEncodeError"
proof (induction s)
  case Nil
  show ?case by (simp add: utf8_def)
next
  case (Cons c s)
  then show ?case by (simp split: option.splits)
qed

lemma group_key_surrogate: "generate_group_key [0xDCFF] = Inl UnicodeEncodeError"
  using encode_surrogate [of "[]" "[]"] by (simp add: generate_group_key_def)

lemma field_key_surrogate: "generate_field_key m [0xDCFF] = Inl UnicodeEncodeError"
  using encode_surrogate [of "m @ [underscore]" "[]"] by (simp add: generate_field_key_def)

text \<open>
  C8, as stated, speaks of every module name and every field list. The builder raises
  on a module name that holds a lone surrogate, on a field whose type is no key of the
  registry, and on a field whose name holds a lone surrogate.
\<close>

theorem build_acf_json_raises:
  "build_acf_json 1700000000 [0xDCFF] (lit ''produit'') [] = Inl UnicodeEncodeError
   \<and> build_acf_json 1700000000 (lit ''Produit'') (lit ''produit'')
        [\<lparr>name = lit ''prix'', field_type = lit ''currency'', label = lit ''Prix''\<rparr>]
       = Inl (KeyError (lit ''currency''))
   \<and> build_acf_json 1700000000 (lit ''Produit'') (lit ''produit'')
        [\<lparr>name = [0xDCFF], field_type = lit ''text'', label = lit ''Prix''\<rparr>]
       = Inl UnicodeEncodeError"
proof -
  have "build_acf_json 1700000000 [0xDCFF] (lit ''produit'') [] = Inl UnicodeEncodeError"
    by (simp add: build_acf_json_def group_key_surrogate)
  moreover have "map_of SUPPORTED_TYPES (lit ''currency'') = None"
    by (simp add: SUPPORTED_TYPES_def lit_simps)
  then have "build_acf_field
        \<lparr>name = lit ''prix'', field_type = lit ''currency'', label = lit ''Prix''\<rparr>
        (lit ''Produit'') 0 = Inl (KeyError (lit ''currency''))"
    by (simp add: build_acf_field_def)
  then have "build_acf_json 1700000000 (lit ''Produit'') (lit ''produit'')
        [\<lparr>name = lit ''prix'', field_type = lit ''currency'', label = lit ''Prix''\<rparr>]
       = Inl (KeyError (lit ''currency''))"
    by (simp add: build_acf_json_def)
  moreover have "\<exists>cfg ty. map_of SUPPORTED_TYPES (lit ''text'') = Some cfg
      \<and> map_of cfg (lit ''type'') = Some ty"
    by (simp add: SUPPORTED_TYPES_def lit_simps)
  then have "build_acf_field
        \<lparr>name = [0xDCFF], field_type = lit ''text'', label = lit ''Prix''\<rparr>
        (lit ''Produit'') 0 = Inl UnicodeEncodeError"
    by (auto simp: build_acf_field_def field_key_surrogate)
  then have "build_acf_json 1700000000 (lit ''Produit'') (lit ''produit'')
        [\<lparr>name = [0xDCFF], field_type = lit ''text'', label = lit ''Prix''\<rparr>]
       = Inl UnicodeEncodeError"
    by (simp add: build_acf_json_def)
  ultimately show ?thesis by blast
qed

text \<open>
  C9. Two runs of \<open>build_acf_json\<close> on the same module name, slug and field list, at
  clock readings \<open>now1\<close> and \<open>now2\<close>, fail alike or return documents that are equal
  once \<open>modified\<close> is removed; the second document is the first one with \<open>modified\<close>
  set to \<open>now2\<close>. The clock reaches no other entry, so no key depends on it.
\<close>

theorem build_acf_json_clock:
  "map_sum id (AList.delete (lit ''modified'')) (build_acf_json now1 module_name slug flds)
     = map_sum id (AList.delete (lit ''modified'')) (build_acf_json now2 module_name slug flds)
   \<and> build_acf_json now2 module_name slug flds
     = map_sum id (AList.update (lit ''modified'') (PInt now2))
         (build_acf_json now1 module_name slug flds)"
proof (cases "collect (\<lambda>(i, field). build_acf_field field module_name i) (enumerate 0 flds)")
  case (Inl e)
  then show ?thesis by (simp add: build_acf_json_def)
next
  case fields: (Inr acf_fields)
  show ?thesis
  proof (cases "generate_group_key module_name")
    case (Inl e)
    with fields show ?thesis by (simp add: build_acf_json_def)
  next
    case (Inr key)
    show ?thesis
      unfolding build_acf_json_ok [OF fields Inr]
      by (simp add: AList.delete_eq lit_simps)
  qed
qed

end
